theory Spec2Isabelle
  imports Complex_Main "HOL-Library.Log_Nat" "HOL-Library.Word" "HOL-Library.AList"
begin

section \<open>JavaScript numbers\<close>

text \<open>
  Every number of the program is an IEEE-754 binary64 value. A finite binary64 value is
  modelled as the real number it denotes, and every arithmetic operator rounds its exact
  result to the nearest binary64 value, ties to even (\<open>fl\<close>). Subnormal values are
  covered by the lower bound on the exponent; results of magnitude \<open>2^1024\<close> and
  more (\<open>Infinity\<close> in JavaScript) and \<open>NaN\<close> are outside the model.
\<close>

definition ilog2 :: "real \<Rightarrow> int" where
  "ilog2 x = (if 1 \<le> x then bitlen \<lfloor>x\<rfloor> - 1 else - bitlen (\<lceil>1 / x\<rceil> - 1))"

definition round_even :: "real \<Rightarrow> int" where
  "round_even x =
     (let n = \<lfloor>x\<rfloor>; d = x - of_int n
      in if d < 1 / 2 then n else if 1 / 2 < d then n + 1 else if even n then n else n + 1)"

definition fl :: "real \<Rightarrow> real" where
  "fl x =
     (if x = 0 then 0
      else let e = max (ilog2 \<bar>x\<bar>) (- 1022); q = 2 powi (e - 52)
           in sgn x * of_int (round_even (\<bar>x\<bar> / q)) * q)"

definition js_mul :: "real \<Rightarrow> real \<Rightarrow> real" where
  "js_mul a b = fl (a * b)"

definition js_div :: "real \<Rightarrow> real \<Rightarrow> real" where
  "js_div a b = fl (a / b)"

definition js_sub :: "real \<Rightarrow> real \<Rightarrow> real" where
  "js_sub a b = fl (a - b)"

definition math_floor :: "real \<Rightarrow> real" where
  "math_floor x = of_int \<lfloor>x\<rfloor>"

definition math_round :: "real \<Rightarrow> real" where
  "math_round x = of_int \<lfloor>x + 1 / 2\<rfloor>"

section \<open>Strings of numbers\<close>

definition digit_char :: "nat \<Rightarrow> char" where
  "digit_char d = char_of (48 + d)"

function show_nat :: "nat \<Rightarrow> string" where
  "show_nat n = (if n < 10 then [digit_char n] else show_nat (n div 10) @ [digit_char (n mod 10)])"
  by pat_completeness auto
termination
  by (relation "measure (\<lambda>n. n)") auto

declare show_nat.simps [simp del]

definition show_int :: "int \<Rightarrow> string" where
  "show_int i = (if i < 0 then CHR ''-'' # show_nat (nat (- i)) else show_nat (nat i))"

section \<open>Configuration (backend/config.js)\<close>

definition MIN_BET :: real where "MIN_BET = 1"
definition MAX_BET :: real where "MAX_BET = 100000000000"
definition MAX_MULTIPLIER :: real where "MAX_MULTIPLIER = 1000"
definition BETTING_PHASE_MS :: nat where "BETTING_PHASE_MS = 5000"
definition TIMEOUT_MS :: nat where "TIMEOUT_MS = 10000"
definition RETRY_ATTEMPTS :: nat where "RETRY_ATTEMPTS = 3"
definition RETRY_DELAY_MS :: nat where "RETRY_DELAY_MS = 1000"

section \<open>Errors\<close>

text \<open>
  Every \<open>throw new Error(msg)\<close> of the engine and of the services is a constructor;
  \<open>error_message\<close> gives the message the source attaches to it.
\<close>

datatype error =
    NoActiveRound
  | BettingPhaseEnded
  | AlreadyPlacedBet
  | NoRoundInBettingPhase
  | RoundNotRunning
  | NoBetFound
  | AlreadyCashedOut
  | InvalidBetAmount
  | MinimumBet
  | MaximumBet
  | NoActiveBetFound
  | BufferOutOfRange
  | OtherError string

definition error_message :: "error \<Rightarrow> string" where
  "error_message e =
     (case e of
        NoActiveRound \<Rightarrow> ''No active round''
      | BettingPhaseEnded \<Rightarrow> ''Betting phase has ended''
      | AlreadyPlacedBet \<Rightarrow> ''Already placed a bet this round''
      | NoRoundInBettingPhase \<Rightarrow> ''No round in betting phase''
      | RoundNotRunning \<Rightarrow> ''Round is not running''
      | NoBetFound \<Rightarrow> ''No bet found for player''
      | AlreadyCashedOut \<Rightarrow> ''Already cashed out''
      | InvalidBetAmount \<Rightarrow> ''Invalid bet amount''
      | MinimumBet \<Rightarrow> ''Minimum bet is 1''
      | MaximumBet \<Rightarrow> ''Maximum bet is 100000000000''
      | NoActiveBetFound \<Rightarrow> ''No active bet found''
      | BufferOutOfRange \<Rightarrow> ''The value of offset is out of range''
      | OtherError m \<Rightarrow> m)"

section \<open>The crash engine (engine/crashEngine.js)\<close>

subsection \<open>Data\<close>

datatype status = Pending | Betting | Running | Crashed

record bet =
  bet_playerId :: string
  bet_sessionId :: string
  bet_amount :: real
  placedAt :: int

record cashout_data =
  co_playerId :: string
  betAmount :: real
  multiplier :: real
  winAmount :: real
  cashedOutAt :: int

text \<open>
  A JavaScript \<open>Map\<close> keeps its keys in insertion order; it is an association list in
  which \<open>set\<close> replaces the value of a present key in place and appends a new key
  (\<open>AList.update\<close>), \<open>get\<close> is \<open>map_of\<close>.
\<close>

type_synonym ('k, 'v) jsmap = "('k \<times> 'v) list"

definition map_has :: "'k \<Rightarrow> ('k, 'v) jsmap \<Rightarrow> bool" where
  "map_has k m = (map_of m k \<noteq> None)"

definition map_set :: "'k \<Rightarrow> 'v \<Rightarrow> ('k, 'v) jsmap \<Rightarrow> ('k, 'v) jsmap" where
  "map_set k v m = AList.update k v m"

record round =
  round_id :: string
  serverSeed :: string
  serverSeedHash :: string
  clientSeed :: string
  nonce :: nat
  crashPoint :: real
  startTime :: "int option"
  endTime :: "int option"
  status :: status
  currentMultiplier :: real
  bets :: "(string, bet) jsmap"
  cashedOut :: "(string, cashout_data) jsmap"

record verification =
  v_roundId :: string
  v_crashPoint :: real
  v_serverSeed :: string
  v_serverSeedHash :: string
  v_clientSeed :: string
  v_nonce :: nat

record history_entry =
  h_id :: string
  h_crashPoint :: real
  h_serverSeed :: string
  h_serverSeedHash :: string
  h_clientSeed :: string
  h_nonce :: nat
  h_startTime :: "int option"
  h_endTime :: "int option"

text \<open>
  \<open>emit\<close> calls the registered listeners with the event; the model appends the event
  to the log \<open>emitted\<close>. The seed manager (engine/seeds.js) is a module of its own: what
  its three getters return is an argument of \<open>generateRound\<close>, and the calls of
  \<open>advanceToNextSeed\<close> are counted in \<open>seedAdvances\<close>.
\<close>

datatype event =
    BettingPhaseEv string string string nat nat
  | RoundStartEv string string int
  | RoundTickEv string real int
  | RoundCrashEv verification

record engine =
  currentRound :: "round option"
  roundHistory :: "history_entry list"
  emitted :: "event list"
  seedAdvances :: nat

definition new_engine :: engine where
  "new_engine = \<lparr>currentRound = None, roundHistory = [], emitted = [], seedAdvances = 0\<rparr>"

text \<open>
  The functions of other modules and of the runtime that the engine calls:
  \<open>hmacSha256Buffer\<close> and \<open>sha256\<close> of util/hmac.js, and
  \<open>mathPowE y\<close> for \<open>Math.pow(Math.E, y)\<close>, whose accuracy ECMAScript leaves
  to the implementation.
\<close>

record lib =
  hmacSha256Buffer :: "string \<Rightarrow> string \<Rightarrow> 8 word list"
  sha256 :: "string \<Rightarrow> string"
  mathPowE :: "real \<Rightarrow> real"

subsection \<open>calculateCrashPoint\<close>

definition readUIntBE :: "8 word list \<Rightarrow> nat \<Rightarrow> nat \<Rightarrow> error + nat" where
  "readUIntBE buf offset byteLength =
     (if offset + byteLength \<le> length buf
      then Inr (foldl (\<lambda>acc b. acc * 256 + unat b) 0 (take byteLength (drop offset buf)))
      else Inl BufferOutOfRange)"

definition crashPointOfRaw :: "real \<Rightarrow> real" where
  "crashPointOfRaw raw =
     (if raw < fl (1 / 100) then 1
      else let crashPoint =
                 js_div (math_floor (js_mul (js_div (fl (99 / 100)) (js_sub 1 raw)) 100)) 100
           in min crashPoint MAX_MULTIPLIER)"

definition calculateCrashPoint :: "lib \<Rightarrow> string \<Rightarrow> string \<Rightarrow> nat \<Rightarrow> error + real" where
  "calculateCrashPoint L sSeed cSeed n =
     (let message = cSeed @ '':'' @ show_nat n;
          hash = hmacSha256Buffer L sSeed message
      in case readUIntBE hash 0 6 of
           Inl e \<Rightarrow> Inl e
         | Inr h \<Rightarrow>
             let divisor = 2 ^ 48;
                 raw = js_div (real h) divisor
             in Inr (crashPointOfRaw raw))"

subsection \<open>Round lifecycle\<close>

text \<open>
  An operation returns its result, or the error it throws, together with the engine as
  the call leaves it; the engine of a call that throws is part of what is proved.
\<close>

definition generateRound ::
  "lib \<Rightarrow> int \<Rightarrow> string \<times> string \<times> nat \<Rightarrow> engine \<Rightarrow> (error + round) \<times> engine" where
  "generateRound L now seeds eng =
     (case seeds of (sSeed, cSeed, n) \<Rightarrow>
        (case calculateCrashPoint L sSeed cSeed n of
           Inl e \<Rightarrow> (Inl e, eng)
         | Inr cp \<Rightarrow>
             let r = \<lparr>round_id = ''R-'' @ show_int now @ ''-'' @ show_nat n,
                      serverSeed = sSeed,
                      serverSeedHash = sha256 L sSeed,
                      clientSeed = cSeed,
                      nonce = n,
                      crashPoint = cp,
                      startTime = None,
                      endTime = None,
                      status = Pending,
                      currentMultiplier = 1,
                      bets = [],
                      cashedOut = []\<rparr>
             in (Inr r, eng\<lparr>currentRound := Some r\<rparr>)))"

definition startBettingPhase ::
  "lib \<Rightarrow> int \<Rightarrow> string \<times> string \<times> nat \<Rightarrow> engine \<Rightarrow> (error + round) \<times> engine" where
  "startBettingPhase L now seeds eng =
     (case (case currentRound eng of
              None \<Rightarrow> generateRound L now seeds eng
            | Some r \<Rightarrow> (Inr r, eng)) of
        (Inl e, eng1) \<Rightarrow> (Inl e, eng1)
      | (Inr r0, eng1) \<Rightarrow>
          let r = r0\<lparr>status := Betting\<rparr>
          in (Inr r, eng1\<lparr>currentRound := Some r,
                          emitted := emitted eng1 @
                            [BettingPhaseEv (round_id r) (serverSeedHash r) (clientSeed r)
                               (nonce r) BETTING_PHASE_MS]\<rparr>))"

definition startRound :: "int \<Rightarrow> engine \<Rightarrow> (error + round) \<times> engine" where
  "startRound now eng =
     (case currentRound eng of
        None \<Rightarrow> (Inl NoRoundInBettingPhase, eng)
      | Some r0 \<Rightarrow>
          if status r0 \<noteq> Betting then (Inl NoRoundInBettingPhase, eng)
          else let r = r0\<lparr>status := Running, startTime := Some now, currentMultiplier := 1\<rparr>
               in (Inr r, eng\<lparr>currentRound := Some r,
                              emitted := emitted eng @
                                [RoundStartEv (round_id r) (serverSeedHash r) now]\<rparr>))"

definition growthRate :: real where
  "growthRate = fl (6 / 100000)"

definition calculateMultiplier :: "lib \<Rightarrow> real \<Rightarrow> real" where
  "calculateMultiplier L elapsedMs =
     (let m = mathPowE L (js_mul growthRate elapsedMs)
      in js_div (math_floor (js_mul m 100)) 100)"

record crash_result =
  cr_round :: round
  cr_losers :: "(string \<times> bet) list"
  cr_verification :: verification

definition crash :: "int \<Rightarrow> engine \<Rightarrow> crash_result option \<times> engine" where
  "crash now eng =
     (case currentRound eng of
        None \<Rightarrow> (None, eng)
      | Some r0 \<Rightarrow>
          let r = r0\<lparr>status := Crashed, endTime := Some now, currentMultiplier := crashPoint r0\<rparr>;
              verificationData =
                \<lparr>v_roundId = round_id r, v_crashPoint = crashPoint r,
                 v_serverSeed = serverSeed r, v_serverSeedHash = serverSeedHash r,
                 v_clientSeed = clientSeed r, v_nonce = nonce r\<rparr>;
              entry =
                \<lparr>h_id = round_id r, h_crashPoint = crashPoint r,
                 h_serverSeed = serverSeed r, h_serverSeedHash = serverSeedHash r,
                 h_clientSeed = clientSeed r, h_nonce = nonce r,
                 h_startTime = startTime r, h_endTime = endTime r\<rparr>;
              history = entry # roundHistory eng;
              history' = (if length history > 50 then butlast history else history);
              losers = filter (\<lambda>(p, b). \<not> map_has p (cashedOut r)) (bets r)
          in (Some \<lparr>cr_round = r, cr_losers = losers, cr_verification = verificationData\<rparr>,
              eng\<lparr>currentRound := None,
                  roundHistory := history',
                  emitted := emitted eng @ [RoundCrashEv verificationData],
                  seedAdvances := Suc (seedAdvances eng)\<rparr>))"

datatype tick_result =
    is_TickNull: TickNull
  | is_TickMultiplier: TickMultiplier real
  | is_TickCrash: TickCrash crash_result

text \<open>
  \<open>tick\<close> reads the clock for the elapsed time (\<open>now\<close>), and \<open>crash\<close> reads it
  again for \<open>endTime\<close> (\<open>endNow\<close>). A round that is running with no start time
  cannot be built by the operations; there \<open>Date.now() - null\<close> is \<open>Date.now()\<close>.
\<close>

definition tick :: "lib \<Rightarrow> int \<Rightarrow> int \<Rightarrow> engine \<Rightarrow> tick_result \<times> engine" where
  "tick L now endNow eng =
     (case currentRound eng of
        None \<Rightarrow> (TickNull, eng)
      | Some r0 \<Rightarrow>
          if status r0 \<noteq> Running then (TickNull, eng)
          else let elapsed = now - (case startTime r0 of None \<Rightarrow> 0 | Some s \<Rightarrow> s);
                   newMultiplier = calculateMultiplier L (of_int elapsed);
                   r = r0\<lparr>currentMultiplier := newMultiplier\<rparr>;
                   eng1 = eng\<lparr>currentRound := Some r\<rparr>
               in if newMultiplier \<ge> crashPoint r
                  then (case crash endNow eng1 of
                          (None, eng2) \<Rightarrow> (TickNull, eng2)
                        | (Some res, eng2) \<Rightarrow> (TickCrash res, eng2))
                  else (TickMultiplier newMultiplier,
                        eng1\<lparr>emitted := emitted eng1 @
                                [RoundTickEv (round_id r) newMultiplier elapsed]\<rparr>))"

subsection \<open>Bets and cashouts\<close>

definition addBet ::
  "string \<Rightarrow> real \<Rightarrow> string \<Rightarrow> int \<Rightarrow> engine \<Rightarrow> (error + bet) \<times> engine" where
  "addBet playerId amount sessionId now eng =
     (case currentRound eng of
        None \<Rightarrow> (Inl NoActiveRound, eng)
      | Some r \<Rightarrow>
          if status r \<noteq> Betting then (Inl BettingPhaseEnded, eng)
          else if map_has playerId (bets r) then (Inl AlreadyPlacedBet, eng)
          else let b = \<lparr>bet_playerId = playerId, bet_sessionId = sessionId,
                        bet_amount = amount, placedAt = now\<rparr>
               in (Inr b, eng\<lparr>currentRound := Some (r\<lparr>bets := map_set playerId b (bets r)\<rparr>)\<rparr>))"

definition cashout :: "string \<Rightarrow> int \<Rightarrow> engine \<Rightarrow> (error + cashout_data) \<times> engine" where
  "cashout playerId now eng =
     (case currentRound eng of
        None \<Rightarrow> (Inl NoActiveRound, eng)
      | Some r \<Rightarrow>
          if status r \<noteq> Running then (Inl RoundNotRunning, eng)
          else (case map_of (bets r) playerId of
                  None \<Rightarrow> (Inl NoBetFound, eng)
                | Some b \<Rightarrow>
                    if map_has playerId (cashedOut r) then (Inl AlreadyCashedOut, eng)
                    else let m = currentMultiplier r;
                             w = js_div (math_floor (js_mul (js_mul (bet_amount b) m) 100)) 100;
                             cashoutData =
                               \<lparr>co_playerId = playerId, betAmount = bet_amount b,
                                multiplier = m, winAmount = w, cashedOutAt = now\<rparr>
                         in (Inr cashoutData,
                             eng\<lparr>currentRound :=
                               Some (r\<lparr>cashedOut := map_set playerId cashoutData (cashedOut r)\<rparr>)\<rparr>)))"

subsection \<open>Read access\<close>

record round_view =
  rv_id :: string
  rv_status :: status
  rv_currentMultiplier :: real
  rv_serverSeedHash :: string
  rv_clientSeed :: string
  rv_nonce :: nat
  rv_betsCount :: nat
  rv_startTime :: "int option"

definition getCurrentRound :: "engine \<Rightarrow> round_view option" where
  "getCurrentRound eng =
     (case currentRound eng of
        None \<Rightarrow> None
      | Some r \<Rightarrow>
          Some \<lparr>rv_id = round_id r, rv_status = status r,
                rv_currentMultiplier = currentMultiplier r,
                rv_serverSeedHash = serverSeedHash r, rv_clientSeed = clientSeed r,
                rv_nonce = nonce r, rv_betsCount = length (bets r),
                rv_startTime = startTime r\<rparr>)"

definition getHistory :: "nat \<Rightarrow> engine \<Rightarrow> history_entry list" where
  "getHistory limit eng = take limit (roundHistory eng)"

definition getPlayerBet :: "string \<Rightarrow> engine \<Rightarrow> bet option" where
  "getPlayerBet playerId eng =
     (case currentRound eng of None \<Rightarrow> None | Some r \<Rightarrow> map_of (bets r) playerId)"


subsection \<open>The life of one round\<close>

text \<open>
  \<open>round_step L eng eng'\<close>: one operation of the engine on a current round other than
  the crash transition. \<open>generateRound\<close> opens a round, these operations carry it, and
  \<open>crash\<close> (called by \<open>tick\<close>) ends it.
\<close>

inductive round_step :: "lib \<Rightarrow> engine \<Rightarrow> engine \<Rightarrow> bool" for L :: lib where
  step_betting:
    "currentRound eng \<noteq> None \<Longrightarrow> startBettingPhase L now seeds eng = (res, eng')
     \<Longrightarrow> round_step L eng eng'"
| step_start:
    "currentRound eng \<noteq> None \<Longrightarrow> startRound now eng = (res, eng') \<Longrightarrow> round_step L eng eng'"
| step_tick:
    "currentRound eng \<noteq> None \<Longrightarrow> tick L now endNow eng = (res, eng') \<Longrightarrow> \<not> is_TickCrash res
     \<Longrightarrow> round_step L eng eng'"
| step_addBet:
    "currentRound eng \<noteq> None \<Longrightarrow> addBet p a s now eng = (res, eng') \<Longrightarrow> round_step L eng eng'"
| step_cashout:
    "currentRound eng \<noteq> None \<Longrightarrow> cashout p now eng = (res, eng') \<Longrightarrow> round_step L eng eng'"

definition same_round :: "round \<Rightarrow> round \<Rightarrow> bool" where
  "same_round r r' =
     (round_id r' = round_id r \<and> serverSeed r' = serverSeed r
      \<and> serverSeedHash r' = serverSeedHash r \<and> clientSeed r' = clientSeed r
      \<and> nonce r' = nonce r \<and> crashPoint r' = crashPoint r)"

definition event_hash :: "event \<Rightarrow> string option" where
  "event_hash ev =
     (case ev of
        BettingPhaseEv rid h cs n d \<Rightarrow> Some h
      | RoundStartEv rid h t \<Rightarrow> Some h
      | RoundTickEv rid m el \<Rightarrow> None
      | RoundCrashEv v \<Rightarrow> Some (v_serverSeedHash v))"

section \<open>The callback service (services/callbackService.js)\<close>

subsection \<open>Requests, responses and the platform\<close>

datatype payload =
    BetPayload (pl_requestId: string) (pl_roundId: string) (pl_playerId: string)
      (pl_sessionId: string) (pl_amount: real) (pl_currency: string) (pl_timestamp: int)
  | WinPayload (pl_requestId: string) (pl_roundId: string) (pl_playerId: string)
      (pl_sessionId: string) (pl_betAmount: real) (pl_multiplier: real) (pl_winAmount: real)
      (pl_currency: string) (pl_betTransactionId: "string option") (pl_timestamp: int)
  | RollbackPayload (pl_requestId: string) (pl_roundId: string) (pl_playerId: string)
      (pl_sessionId: string) (pl_amount: real) (pl_currency: string)
      (pl_originalTransactionId: "string option") (pl_reason: string) (pl_timestamp: int)
  | BalancePayload (pl_playerId: string) (pl_sessionId: string) (pl_timestamp: int)

definition payload_requestId :: "payload \<Rightarrow> string option" where
  "payload_requestId p =
     (case p of BalancePayload _ _ _ \<Rightarrow> None | _ \<Rightarrow> Some (pl_requestId p))"

record response_data =
  rs_status :: "string option"
  rs_transactionId :: "string option"
  rs_newBalance :: "real option"
  rs_code :: "string option"
  rs_message :: "string option"

text \<open>
  What one \<open>fetch\<close> of the platform comes to: \<open>FetchError m\<close> when \<open>fetch\<close> or
  \<open>response.json()\<close> rejects with message \<open>m\<close> (no connection, the timeout signal
  fires, the body is not JSON), \<open>HttpResponse ok code body\<close> otherwise.
\<close>

datatype outcome = FetchError string | HttpResponse bool nat response_data

record request =
  rq_url :: string
  rq_payload :: payload
  rq_signature :: string
  rq_requestIdHeader :: string
  rq_timeout :: nat

record pending_transaction =
  pt_type :: string
  pt_payload :: payload
  pt_transactionId :: string

text \<open>
  The platform and the clock are the environment of a call: the \<open>i\<close>-th \<open>fetch\<close>
  comes to \<open>outcomes i\<close>, the \<open>i\<close>-th \<open>Date.now()\<close> returns \<open>clock i\<close>. The
  state \<open>world\<close> logs the requests sent and the delays slept, counts the clock readings
  and holds the service's \<open>pendingTransactions\<close>.
\<close>

record env =
  outcomes :: "nat \<Rightarrow> outcome"
  clock :: "nat \<Rightarrow> int"

record world =
  fetches :: "request list"
  sleeps :: "nat list"
  clockReads :: nat
  pendingTransactions :: "(string, pending_transaction) jsmap"


definition date_now :: "env \<Rightarrow> world \<Rightarrow> int \<times> world" where
  "date_now E w = (clock E (clockReads w), w\<lparr>clockReads := Suc (clockReads w)\<rparr>)"

text \<open>
  The session service (services/sessionService.js) and \<open>generateCallbackSignature\<close>
  (util/hmac.js) are modules of their own; they are arguments. \<open>updateBalance\<close>
  returns the error it throws, if it throws.
\<close>

record session =
  s_playerId :: string
  s_currency :: string
  s_callbackBaseUrl :: string

record svc =
  validateSession :: "string \<Rightarrow> error + session"
  updateBalance :: "string \<Rightarrow> real option \<Rightarrow> error option"
  generateCallbackSignature :: "string \<Rightarrow> payload \<Rightarrow> string"

definition PROVIDER_SECRET :: string where
  "PROVIDER_SECRET = ''your-provider-secret-key-change-in-production''"

text \<open>JavaScript's \<open>a || b\<close> on strings that may be undefined: the empty string is falsy.\<close>

definition truthy :: "string option \<Rightarrow> bool" where
  "truthy x = (case x of None \<Rightarrow> False | Some s \<Rightarrow> s \<noteq> [])"

definition js_or :: "string option \<Rightarrow> string option \<Rightarrow> string option" where
  "js_or a b = (if truthy a then a else b)"

subsection \<open>makeRequest\<close>

definition attempt_result :: "outcome \<Rightarrow> error + response_data" where
  "attempt_result out =
     (case out of
        FetchError m \<Rightarrow> Inl (OtherError m)
      | HttpResponse ok code data \<Rightarrow>
          if \<not> ok
          then Inl (OtherError (''HTTP '' @ show_nat code @ '': '' @
                 the (js_or (rs_message data) (Some ''Unknown error''))))
          else Inr data)"

function makeRequest ::
  "svc \<Rightarrow> env \<Rightarrow> string \<Rightarrow> payload \<Rightarrow> nat \<Rightarrow> world \<Rightarrow> (error + response_data) \<times> world" where
  "makeRequest S E url payload attempt w =
     (let signature = generateCallbackSignature S PROVIDER_SECRET payload;
          (rid, w1) = (if truthy (payload_requestId payload)
                       then (the (payload_requestId payload), w)
                       else (let (t, w') = date_now E w in (''REQ-'' @ show_int t, w')));
          req = \<lparr>rq_url = url, rq_payload = payload, rq_signature = signature,
                 rq_requestIdHeader = rid, rq_timeout = TIMEOUT_MS\<rparr>;
          out = outcomes E (length (fetches w1));
          w2 = w1\<lparr>fetches := fetches w1 @ [req]\<rparr>
      in case attempt_result out of
           Inr data \<Rightarrow> (Inr data, w2)
         | Inl err \<Rightarrow>
             if attempt < RETRY_ATTEMPTS
             then makeRequest S E url payload (attempt + 1)
                    (w2\<lparr>sleeps := sleeps w2 @ [RETRY_DELAY_MS * attempt]\<rparr>)
             else (Inl err, w2))"
  by pat_completeness auto
termination
  by (relation "measure (\<lambda>(S, E, url, payload, attempt, w). RETRY_ATTEMPTS - attempt)") auto

declare makeRequest.simps [simp del]

subsection \<open>The callbacks\<close>

record callback_result =
  cb_success :: bool
  cb_transactionId :: "string option"
  cb_newBalance :: "real option"
  cb_code :: "string option"
  cb_message :: "string option"
  cb_requestId :: string

record bet_call =
  bc_callbackBaseUrl :: string
  bc_roundId :: string
  bc_playerId :: string
  bc_sessionId :: string
  bc_amount :: real
  bc_currency :: string

definition callback_failed :: "error \<Rightarrow> string \<Rightarrow> callback_result" where
  "callback_failed err requestId =
     \<lparr>cb_success = False, cb_transactionId = None, cb_newBalance = None,
      cb_code = Some ''CALLBACK_FAILED'', cb_message = Some (error_message err),
      cb_requestId = requestId\<rparr>"

definition callback_rejected :: "response_data \<Rightarrow> string \<Rightarrow> callback_result" where
  "callback_rejected response requestId =
     \<lparr>cb_success = False, cb_transactionId = None, cb_newBalance = None,
      cb_code = rs_code response, cb_message = rs_message response,
      cb_requestId = requestId\<rparr>"

definition callback_ok :: "response_data \<Rightarrow> string \<Rightarrow> callback_result" where
  "callback_ok response requestId =
     \<lparr>cb_success = True, cb_transactionId = rs_transactionId response,
      cb_newBalance = rs_newBalance response, cb_code = None, cb_message = None,
      cb_requestId = requestId\<rparr>"

definition clearPendingTransaction :: "string option \<Rightarrow> world \<Rightarrow> world" where
  "clearPendingTransaction transactionId w =
     (case find (\<lambda>(requestId, tx). Some (pt_transactionId tx) = transactionId)
             (pendingTransactions w) of
        None \<Rightarrow> w
      | Some (requestId, tx) \<Rightarrow>
          w\<lparr>pendingTransactions := AList.delete requestId (pendingTransactions w)\<rparr>)"

definition cb_placeBet :: "svc \<Rightarrow> env \<Rightarrow> bet_call \<Rightarrow> world \<Rightarrow> callback_result \<times> world" where
  "cb_placeBet S E c w =
     (let url = bc_callbackBaseUrl c @ ''/bet'';
          (t1, w1) = date_now E w;
          requestId = ''BET-'' @ bc_roundId c @ ''-'' @ bc_playerId c @ ''-'' @ show_int t1;
          (t2, w2) = date_now E w1;
          payload = BetPayload requestId (bc_roundId c) (bc_playerId c) (bc_sessionId c)
                      (bc_amount c) (bc_currency c) t2
      in case makeRequest S E url payload 1 w2 of
           (Inr response, w3) \<Rightarrow>
             (case rs_transactionId response of
                Some tx \<Rightarrow>
                  (callback_ok response requestId,
                   w3\<lparr>pendingTransactions :=
                        map_set requestId
                          \<lparr>pt_type = ''bet'', pt_payload = payload, pt_transactionId = tx\<rparr>
                          (pendingTransactions w3)\<rparr>)
              | None \<Rightarrow> (callback_rejected response requestId, w3))
         | (Inl err, w3) \<Rightarrow> (callback_failed err requestId, w3))"



record rollback_call =
  rc_callbackBaseUrl :: string
  rc_roundId :: string
  rc_playerId :: string
  rc_sessionId :: string
  rc_amount :: real
  rc_currency :: string
  rc_originalTransactionId :: "string option"
  rc_reason :: string

definition rollback :: "svc \<Rightarrow> env \<Rightarrow> rollback_call \<Rightarrow> world \<Rightarrow> callback_result \<times> world" where
  "rollback S E c w =
     (let url = rc_callbackBaseUrl c @ ''/rollback'';
          (t1, w1) = date_now E w;
          requestId = ''ROLLBACK-'' @ rc_roundId c @ ''-'' @ rc_playerId c @ ''-'' @ show_int t1;
          (t2, w2) = date_now E w1;
          payload = RollbackPayload requestId (rc_roundId c) (rc_playerId c) (rc_sessionId c)
                      (rc_amount c) (rc_currency c) (rc_originalTransactionId c) (rc_reason c) t2
      in case makeRequest S E url payload 1 w2 of
           (Inr response, w3) \<Rightarrow>
             if rs_status response = Some ''OK''
             then (callback_ok response requestId,
                   clearPendingTransaction (rc_originalTransactionId c) w3)
             else (callback_rejected response requestId, w3)
         | (Inl err, w3) \<Rightarrow> (callback_failed err requestId, w3))"

section \<open>The bet service (services/betService.js)\<close>

record active_bet =
  ab_bet :: bet
  ab_transactionId :: "string option"
  ab_roundId :: string
  ab_callbackBaseUrl :: string
  ab_currency :: string

text \<open>
  The state the service shares with the other handlers of the event loop: the engine
  and its own \<open>activeBets\<close>. While a call awaits the platform the other handlers run
  (ticks, bets and cashouts of any player); what they do to the shared state is an
  argument of the call, a function applied at the \<open>await\<close>.
\<close>

record shared =
  sh_engine :: engine
  activeBets :: "(string, active_bet) jsmap"

text \<open>
  The amount arrives from the socket as any JavaScript value: a finite number,
  \<open>NaN\<close>, an infinity, or a value that is not a number.
\<close>

datatype js_value = Num real | NaN | PosInfinity | NegInfinity | NotANumber

definition amount_check :: "js_value \<Rightarrow> error + real" where
  "amount_check amount =
     (case amount of
        NotANumber \<Rightarrow> Inl InvalidBetAmount
      | NaN \<Rightarrow> Inl InvalidBetAmount
      | NegInfinity \<Rightarrow> Inl MinimumBet
      | PosInfinity \<Rightarrow> Inl MaximumBet
      | Num a \<Rightarrow>
          if a < MIN_BET then Inl MinimumBet
          else if a > MAX_BET then Inl MaximumBet
          else Inr a)"

record bet_ctx =
  bx_session :: session
  bx_roundId :: string
  bx_roundedAmount :: real

text \<open>The part of \<open>placeBet\<close> before the platform is called; it changes nothing.\<close>

definition placeBet_checks :: "svc \<Rightarrow> string \<Rightarrow> js_value \<Rightarrow> shared \<Rightarrow> error + bet_ctx" where
  "placeBet_checks S sessionId amount sh =
     (case validateSession S sessionId of
        Inl e \<Rightarrow> Inl e
      | Inr session \<Rightarrow>
          (case amount_check amount of
             Inl e \<Rightarrow> Inl e
           | Inr a \<Rightarrow>
               (case getPlayerBet (s_playerId session) (sh_engine sh) of
                  Some existingBet \<Rightarrow> Inl AlreadyPlacedBet
                | None \<Rightarrow>
                    (case getCurrentRound (sh_engine sh) of
                       None \<Rightarrow> Inl NoActiveRound
                     | Some rv \<Rightarrow>
                         if rv_status rv \<noteq> Betting then Inl BettingPhaseEnded
                         else Inr \<lparr>bx_session = session, bx_roundId = rv_id rv,
                                   bx_roundedAmount = js_div (math_round (js_mul a 100)) 100\<rparr>))))"

record place_result =
  pr_amount :: real
  pr_roundId :: string
  pr_transactionId :: "string option"
  pr_newBalance :: "real option"

definition rollback_call_of :: "string \<Rightarrow> bet_ctx \<Rightarrow> callback_result \<Rightarrow> rollback_call" where
  "rollback_call_of sessionId cx callbackResult =
     \<lparr>rc_callbackBaseUrl = s_callbackBaseUrl (bx_session cx),
      rc_roundId = bx_roundId cx,
      rc_playerId = s_playerId (bx_session cx),
      rc_sessionId = sessionId,
      rc_amount = bx_roundedAmount cx,
      rc_currency = s_currency (bx_session cx),
      rc_originalTransactionId = cb_transactionId callbackResult,
      rc_reason = ''REGISTRATION_FAILED''\<rparr>"

text \<open>
  The part of \<open>placeBet\<close> after the platform has accepted the debit: the \<open>try\<close>
  block registers the bet, and its \<open>catch\<close> sends the rollback and throws the error it
  caught again, whatever the rollback comes to. The engine reads the clock only when it
  builds the bet, so a registration that throws leaves the clock unread.
\<close>

definition placeBet_register ::
  "svc \<Rightarrow> env \<Rightarrow> string \<Rightarrow> bet_ctx \<Rightarrow> callback_result \<Rightarrow> shared \<Rightarrow> world
     \<Rightarrow> (error + place_result) \<times> shared \<times> world" where
  "placeBet_register S E sessionId cx callbackResult sh w =
     (let playerId = s_playerId (bx_session cx);
          (now, w') = date_now E w;
          w1 = (if isl (fst (addBet playerId (bx_roundedAmount cx) sessionId now (sh_engine sh)))
                then w else w');
          registered =
            (case addBet playerId (bx_roundedAmount cx) sessionId now (sh_engine sh) of
               (Inl e, eng1) \<Rightarrow> (Inl e, sh\<lparr>sh_engine := eng1\<rparr>)
             | (Inr b, eng1) \<Rightarrow>
                 let sh1 = sh\<lparr>sh_engine := eng1,
                              activeBets :=
                                map_set playerId
                                  \<lparr>ab_bet = b,
                                   ab_transactionId = cb_transactionId callbackResult,
                                   ab_roundId = bx_roundId cx,
                                   ab_callbackBaseUrl = s_callbackBaseUrl (bx_session cx),
                                   ab_currency = s_currency (bx_session cx)\<rparr>
                                  (activeBets sh)\<rparr>
                 in (case updateBalance S sessionId (cb_newBalance callbackResult) of
                       Some e \<Rightarrow> (Inl e, sh1)
                     | None \<Rightarrow>
                         (Inr \<lparr>pr_amount = bx_roundedAmount cx, pr_roundId = bx_roundId cx,
                               pr_transactionId = cb_transactionId callbackResult,
                               pr_newBalance = cb_newBalance callbackResult\<rparr>, sh1)))
      in case registered of
           (Inr res, sh2) \<Rightarrow> (Inr res, sh2, w1)
         | (Inl e, sh2) \<Rightarrow>
             let (rb, w2) = rollback S E (rollback_call_of sessionId cx callbackResult) w1
             in (Inl e, sh2, w2))"

definition placeBet ::
  "svc \<Rightarrow> env \<Rightarrow> string \<Rightarrow> js_value \<Rightarrow> (shared \<Rightarrow> shared) \<Rightarrow> shared \<Rightarrow> world
     \<Rightarrow> (error + place_result) \<times> shared \<times> world" where
  "placeBet S E sessionId amount others sh w =
     (case placeBet_checks S sessionId amount sh of
        Inl e \<Rightarrow> (Inl e, sh, w)
      | Inr cx \<Rightarrow>
          let (callbackResult, w1) =
                cb_placeBet S E
                  \<lparr>bc_callbackBaseUrl = s_callbackBaseUrl (bx_session cx),
                   bc_roundId = bx_roundId cx,
                   bc_playerId = s_playerId (bx_session cx),
                   bc_sessionId = sessionId,
                   bc_amount = bx_roundedAmount cx,
                   bc_currency = s_currency (bx_session cx)\<rparr> w;
              sh1 = others sh
          in if \<not> cb_success callbackResult
             then (Inl (OtherError
                     (the (js_or (js_or (cb_message callbackResult) (cb_code callbackResult))
                             (Some ''Bet rejected by platform'')))), sh1, w1)
             else placeBet_register S E sessionId cx callbackResult sh1 w1)"





definition handleRoundCrash :: "(string \<times> bet) list \<Rightarrow> shared \<Rightarrow> shared" where
  "handleRoundCrash losers sh =
     foldl (\<lambda>acc (playerId, b). acc\<lparr>activeBets := AList.delete playerId (activeBets acc)\<rparr>)
       sh losers"

section \<open>Sample values\<close>

definition demo_lib :: lib where
  "demo_lib = \<lparr>hmacSha256Buffer = (\<lambda>k m. replicate 32 0),
                sha256 = (\<lambda>s. ''sha:'' @ s),
                mathPowE = (\<lambda>y. fl (1 + y))\<rparr>"

definition demo_bet :: bet where
  "demo_bet = \<lparr>bet_playerId = ''alice'', bet_sessionId = ''S1'', bet_amount = 10, placedAt = 5\<rparr>"

definition demo_round :: round where
  "demo_round =
     \<lparr>round_id = ''R-1-0'', serverSeed = ''seed'', serverSeedHash = ''sha:seed'',
      clientSeed = ''client'', nonce = 0, crashPoint = 1, startTime = Some 10, endTime = None,
      status = Running, currentMultiplier = 1, bets = [(''alice'', demo_bet)], cashedOut = []\<rparr>"

definition demo_engine :: engine where
  "demo_engine = new_engine\<lparr>currentRound := Some demo_round\<rparr>"

definition carries :: "round \<Rightarrow> round \<Rightarrow> bool" where
  "carries r r' =
     (same_round r r'
      \<and> (\<forall>p b. map_of (bets r) p = Some b \<longrightarrow> map_of (bets r') p = Some b)
      \<and> (\<forall>p c. map_of (cashedOut r) p = Some c \<longrightarrow> map_of (cashedOut r') p = Some c))"


definition wf_round :: "round \<Rightarrow> bool" where
  "wf_round r = (distinct (map fst (bets r)) \<and> distinct (map fst (cashedOut r))
                 \<and> (\<forall>p. map_has p (cashedOut r) \<longrightarrow> map_has p (bets r)))"

definition demo_seeds :: "string \<times> string \<times> nat" where
  "demo_seeds = (''seed'', ''client'', 0)"

definition demo_e1 :: engine where
  "demo_e1 = snd (generateRound demo_lib 1 demo_seeds new_engine)"
definition demo_e2 :: engine where
  "demo_e2 = snd (startBettingPhase demo_lib 2 demo_seeds demo_e1)"
definition demo_e3 :: engine where
  "demo_e3 = snd (addBet ''alice'' 10 ''S1'' 3 demo_e2)"
definition demo_e4 :: engine where
  "demo_e4 = snd (addBet ''bob'' 5 ''S2'' 4 demo_e3)"
definition demo_e5 :: engine where
  "demo_e5 = snd (startRound 5 demo_e4)"
definition demo_e6 :: engine where
  "demo_e6 = snd (cashout ''alice'' 6 demo_e5)"

definition demo_r6 :: round where
  "demo_r6 = the (currentRound demo_e6)"

definition demo_alice_bet :: bet where
  "demo_alice_bet = \<lparr>bet_playerId = ''alice'', bet_sessionId = ''S1'', bet_amount = 10, placedAt = 3\<rparr>"




























definition quantum :: "real \<Rightarrow> real" where
  "quantum x = 2 powi (max (ilog2 \<bar>x\<bar>) (- 1022) - 52)"

definition digest_value :: "8 word list \<Rightarrow> nat" where
  "digest_value bs = foldl (\<lambda>acc b. acc * 256 + unat b) 0 bs"

definition first48Bits :: "8 word list \<Rightarrow> nat" where
  "first48Bits bs = digest_value bs div 2 ^ (8 * (length bs - 6))"

definition spec_crashPoint :: "lib \<Rightarrow> string \<Rightarrow> string \<Rightarrow> nat \<Rightarrow> real" where
  "spec_crashPoint L sSeed cSeed n =
     (let raw = js_div (real (first48Bits (hmacSha256Buffer L sSeed (cSeed @ '':'' @ show_nat n))))
                  (2 ^ 48)
      in if raw < fl (1 / 100) then 1
         else min (js_div (math_floor (js_mul (js_div (fl (99 / 100)) (js_sub 1 raw)) 100)) 100)
                MAX_MULTIPLIER)"

definition ideal_lib :: lib where
  "ideal_lib = \<lparr>hmacSha256Buffer = (\<lambda>k m. replicate 32 0),
                 sha256 = (\<lambda>s. ''sha:'' @ s),
                 mathPowE = (\<lambda>y. fl (exp y))\<rparr>"

section \<open>Properties of the engine\<close>

lemma crash_clears:
  "crash now eng = (Some res, eng') \<Longrightarrow> currentRound eng' = None"
  by (auto simp: crash_def Let_def split: option.splits)

lemma no_round_getCurrentRound: "currentRound eng = None \<Longrightarrow> getCurrentRound eng = None"
  by (simp add: getCurrentRound_def)

lemma no_round_tick: "currentRound eng = None \<Longrightarrow> tick L t t' eng = (TickNull, eng)"
  by (simp add: tick_def)

lemma no_round_addBet:
  "currentRound eng = None \<Longrightarrow> addBet p a s t eng = (Inl NoActiveRound, eng)"
  by (simp add: addBet_def)

lemma no_round_cashout:
  "currentRound eng = None \<Longrightarrow> cashout p t eng = (Inl NoActiveRound, eng)"
  by (simp add: cashout_def)

text \<open>
  C10. After the crash transition the engine holds no current round: \<open>getCurrentRound\<close>
  returns null, \<open>tick\<close> returns null and leaves the engine as it is, and \<open>addBet\<close>
  and \<open>cashout\<close> throw "No active round" and leave the engine (its history included)
  as it is.
\<close>

theorem C10_no_round_after_crash:
  assumes "crash now eng = (Some res, eng')"
  shows "currentRound eng' = None \<and> getCurrentRound eng' = None
       \<and> tick L t t' eng' = (TickNull, eng')
       \<and> addBet p a s t eng' = (Inl NoActiveRound, eng')
       \<and> cashout q t eng' = (Inl NoActiveRound, eng')"
  using crash_clears [OF assms]
  by (simp add: no_round_getCurrentRound no_round_tick no_round_addBet no_round_cashout)

theorem C10_witness:
  "fst (crash 20 demo_engine) \<noteq> None
   \<and> getCurrentRound (snd (crash 20 demo_engine)) = None
   \<and> tick demo_lib 30 30 (snd (crash 20 demo_engine)) = (TickNull, snd (crash 20 demo_engine))
   \<and> addBet ''bob'' 5 ''S2'' 30 (snd (crash 20 demo_engine))
       = (Inl NoActiveRound, snd (crash 20 demo_engine))
   \<and> cashout ''alice'' 30 (snd (crash 20 demo_engine))
       = (Inl NoActiveRound, snd (crash 20 demo_engine))"
proof -
  obtain res eng' where c: "crash 20 demo_engine = (Some res, eng')"
    by (simp add: crash_def demo_engine_def new_engine_def Let_def)
  from C10_no_round_after_crash
         [OF c, where L = demo_lib and t = 30 and t' = 30 and p = "''bob''" and a = 5
           and s = "''S2''" and q = "''alice''"]
  show ?thesis by (simp add: c)
qed

lemma carries_refl: "carries r r"
  by (simp add: carries_def same_round_def)

lemma carries_trans: "carries r r' \<Longrightarrow> carries r' r'' \<Longrightarrow> carries r r''"
  by (simp add: carries_def same_round_def)

lemma startBettingPhase_carries:
  assumes "currentRound eng = Some r" "startBettingPhase L now seeds eng = (res, eng')"
  shows "\<exists>r'. currentRound eng' = Some r' \<and> carries r r'
          \<and> emitted eng' = emitted eng @
               [BettingPhaseEv (round_id r) (serverSeedHash r) (clientSeed r) (nonce r) BETTING_PHASE_MS]"
  using assms by (auto simp: startBettingPhase_def Let_def carries_def same_round_def)

lemma startRound_carries:
  assumes "currentRound eng = Some r" "startRound now eng = (res, eng')"
  shows "\<exists>r'. currentRound eng' = Some r' \<and> carries r r'
          \<and> (emitted eng' = emitted eng
              \<or> emitted eng' = emitted eng @ [RoundStartEv (round_id r) (serverSeedHash r) now])"
  using assms
  by (auto simp: startRound_def Let_def carries_def same_round_def split: if_splits)

lemma crash_None:
  "crash now eng = (None, eng') \<Longrightarrow> currentRound eng = None"
  by (auto simp: crash_def Let_def split: option.splits)

lemma tick_carries:
  assumes "currentRound eng = Some r" "tick L now endNow eng = (res, eng')" "\<not> is_TickCrash res"
  shows "\<exists>r'. currentRound eng' = Some r' \<and> carries r r'
          \<and> (\<exists>evs. emitted eng' = emitted eng @ evs \<and> (\<forall>ev\<in>set evs. event_hash ev = None))"
  using assms
  by (auto simp: tick_def Let_def carries_def same_round_def event_hash_def
      split: if_splits prod.splits option.splits dest: crash_None)

lemma addBet_carries:
  assumes "currentRound eng = Some r" "addBet p a s now eng = (res, eng')"
  shows "\<exists>r'. currentRound eng' = Some r' \<and> carries r r' \<and> emitted eng' = emitted eng"
  using assms
  by (auto simp: addBet_def Let_def carries_def same_round_def map_set_def map_has_def
      update_conv' split: if_splits)

lemma cashout_carries:
  assumes "currentRound eng = Some r" "cashout p now eng = (res, eng')"
  shows "\<exists>r'. currentRound eng' = Some r' \<and> carries r r' \<and> emitted eng' = emitted eng"
  using assms
  by (auto simp: cashout_def Let_def carries_def same_round_def map_set_def map_has_def
      update_conv' split: if_splits option.splits)

lemma round_step_carries:
  assumes "round_step L eng eng'" "currentRound eng = Some r"
  shows "\<exists>r'. currentRound eng' = Some r' \<and> carries r r'
          \<and> (\<exists>evs. emitted eng' = emitted eng @ evs
                \<and> (\<forall>ev\<in>set evs. \<forall>h. event_hash ev = Some h \<longrightarrow> h = serverSeedHash r))"
  using assms
proof (induction rule: round_step.induct)
  case (step_betting eng now seeds res eng')
  from startBettingPhase_carries [OF step_betting.prems step_betting.hyps(2)]
  show ?case by (auto simp: event_hash_def)
next
  case (step_start eng now res eng')
  from startRound_carries [OF step_start.prems step_start.hyps(2)]
  show ?case by (auto simp: event_hash_def)
next
  case (step_tick eng now endNow res eng')
  from tick_carries [OF step_tick.prems step_tick.hyps(2,3)]
  show ?case by fastforce
next
  case (step_addBet eng p a s now res eng')
  from addBet_carries [OF step_addBet.prems step_addBet.hyps(2)]
  show ?case by auto
next
  case (step_cashout eng p now res eng')
  from cashout_carries [OF step_cashout.prems step_cashout.hyps(2)]
  show ?case by auto
qed

lemma round_steps_carries:
  assumes "(round_step L)\<^sup>*\<^sup>* eng eng'" "currentRound eng = Some r"
  shows "\<exists>r'. currentRound eng' = Some r' \<and> carries r r'
          \<and> (\<exists>evs. emitted eng' = emitted eng @ evs
                \<and> (\<forall>ev\<in>set evs. \<forall>h. event_hash ev = Some h \<longrightarrow> h = serverSeedHash r))"
  using assms
proof (induction rule: rtranclp_induct)
  case base
  then show ?case by (auto simp: carries_refl)
next
  case (step y z)
  from step.IH [OF step.prems] obtain r' evs where
    y: "currentRound y = Some r'" "carries r r'" "emitted y = emitted eng @ evs"
       "\<forall>ev\<in>set evs. \<forall>h. event_hash ev = Some h \<longrightarrow> h = serverSeedHash r"
    by blast
  from round_step_carries [OF step.hyps(2) y(1)] obtain r'' evs' where
    z: "currentRound z = Some r''" "carries r' r''" "emitted z = emitted y @ evs'"
       "\<forall>ev\<in>set evs'. \<forall>h. event_hash ev = Some h \<longrightarrow> h = serverSeedHash r'"
    by blast
  have "serverSeedHash r' = serverSeedHash r"
    using y(2) by (simp add: carries_def same_round_def)
  with y z show ?case
    by (auto intro: carries_trans)
qed

lemma generateRound_Inr:
  assumes "generateRound L now seeds e0 = (Inr r0, e1)"
  shows "currentRound e1 = Some r0 \<and> serverSeed r0 = fst seeds
       \<and> serverSeedHash r0 = sha256 L (fst seeds) \<and> emitted e1 = emitted e0
       \<and> roundHistory e1 = roundHistory e0 \<and> bets r0 = [] \<and> cashedOut r0 = []
       \<and> status r0 = Pending"
  using assms
  by (auto simp: generateRound_def Let_def split: prod.splits sum.splits)

lemma map_has_iff: "map_has k m \<longleftrightarrow> k \<in> fst ` set m"
  by (simp add: map_has_def map_of_eq_None_iff)

lemma keys_update: "fst ` set (AList.update k v m) = insert k (fst ` set m)"
  by (induction m) auto

lemma round_step_wf:
  assumes "round_step L eng eng'" "currentRound eng = Some r" "wf_round r"
  shows "\<exists>r'. currentRound eng' = Some r' \<and> wf_round r'"
  using assms
proof (induction rule: round_step.induct)
  case (step_betting eng now seeds res eng')
  then show ?case by (auto simp: startBettingPhase_def Let_def wf_round_def)
next
  case (step_start eng now res eng')
  then show ?case by (auto simp: startRound_def Let_def wf_round_def split: if_splits)
next
  case (step_tick eng now endNow res eng')
  then show ?case
    by (auto simp: tick_def Let_def wf_round_def split: if_splits prod.splits option.splits
        dest: crash_None)
next
  case (step_addBet eng p a s now res eng')
  then show ?case
    by (auto simp: addBet_def Let_def wf_round_def map_set_def distinct_update
        map_has_def update_conv' split: if_splits)
next
  case (step_cashout eng p now res eng')
  then show ?case
    by (auto simp: cashout_def Let_def wf_round_def map_set_def distinct_update
        map_has_def update_conv' split: if_splits option.splits)
qed

lemma round_steps_wf:
  assumes "(round_step L)\<^sup>*\<^sup>* eng eng'" "currentRound eng = Some r" "wf_round r"
  shows "\<exists>r'. currentRound eng' = Some r' \<and> wf_round r'"
  using assms
proof (induction rule: rtranclp_induct)
  case base
  then show ?case by simp
next
  case (step y z)
  from step.IH [OF step.prems] obtain r' where "currentRound y = Some r'" "wf_round r'"
    by blast
  from round_step_wf [OF step.hyps(2) this] show ?case .
qed

lemma history_head:
  "(if length (x # xs) > 50 then butlast (x # xs) else x # xs) \<noteq> []
   \<and> hd (if length (x # xs) > 50 then butlast (x # xs) else x # xs) = x"
  by (cases xs) auto

lemma crash_result:
  assumes "currentRound e = Some r" "crash t e = (Some res, e')"
  shows "cr_round res = r\<lparr>status := Crashed, endTime := Some t, currentMultiplier := crashPoint r\<rparr>
       \<and> cr_losers res = filter (\<lambda>(p, b). \<not> map_has p (cashedOut r)) (bets r)
       \<and> v_serverSeed (cr_verification res) = serverSeed r
       \<and> v_serverSeedHash (cr_verification res) = serverSeedHash r
       \<and> v_crashPoint (cr_verification res) = crashPoint r
       \<and> emitted e' = emitted e @ [RoundCrashEv (cr_verification res)]
       \<and> currentRound e' = None
       \<and> roundHistory e' \<noteq> []
       \<and> h_serverSeed (hd (roundHistory e')) = serverSeed r
       \<and> h_serverSeedHash (hd (roundHistory e')) = serverSeedHash r
       \<and> h_crashPoint (hd (roundHistory e')) = crashPoint r
       \<and> seedAdvances e' = Suc (seedAdvances e)"
proof -
  let ?r = "r\<lparr>status := Crashed, endTime := Some t, currentMultiplier := crashPoint r\<rparr>"
  let ?entry = "\<lparr>h_id = round_id ?r, h_crashPoint = crashPoint ?r,
                 h_serverSeed = serverSeed ?r, h_serverSeedHash = serverSeedHash ?r,
                 h_clientSeed = clientSeed ?r, h_nonce = nonce ?r,
                 h_startTime = startTime ?r, h_endTime = endTime ?r\<rparr>"
  let ?h = "if length (?entry # roundHistory e) > 50 then butlast (?entry # roundHistory e)
            else ?entry # roundHistory e"
  have hist: "roundHistory e' = ?h"
    using assms by (auto simp: crash_def Let_def simp del: butlast.simps)
  have hd: "?h \<noteq> [] \<and> hd ?h = ?entry"
    by (rule history_head)
  have rest: "cr_round res = ?r
       \<and> cr_losers res = filter (\<lambda>(p, b). \<not> map_has p (cashedOut r)) (bets r)
       \<and> v_serverSeed (cr_verification res) = serverSeed r
       \<and> v_serverSeedHash (cr_verification res) = serverSeedHash r
       \<and> v_crashPoint (cr_verification res) = crashPoint r
       \<and> emitted e' = emitted e @ [RoundCrashEv (cr_verification res)]
       \<and> currentRound e' = None
       \<and> seedAdvances e' = Suc (seedAdvances e)"
    using assms by (auto simp: crash_def Let_def simp del: butlast.simps)
  from hd have "roundHistory e' \<noteq> []" "hd (roundHistory e') = ?entry"
    unfolding hist by blast+
  with rest show ?thesis by simp
qed

lemma tick_crash:
  assumes "tick L t t' e = (TickCrash res, e')"
  shows "\<exists>r m. currentRound e = Some r \<and> status r = Running
          \<and> m = calculateMultiplier L (of_int (t - (case startTime r of None \<Rightarrow> 0 | Some s \<Rightarrow> s)))
          \<and> crashPoint r \<le> m
          \<and> crash t' (e\<lparr>currentRound := Some (r\<lparr>currentMultiplier := m\<rparr>)\<rparr>) = (Some res, e')"
  using assms
  by (auto simp: tick_def Let_def split: option.splits if_splits prod.splits)

lemma ending_crash:
  assumes fin: "tick L t t' e = (TickCrash res, e') \<or> crash t' e = (Some res, e')"
    and cur: "currentRound e = Some r"
  shows "\<exists>e2 m. currentRound e2 = Some (r\<lparr>currentMultiplier := m\<rparr>)
           \<and> emitted e2 = emitted e \<and> roundHistory e2 = roundHistory e
           \<and> crash t' e2 = (Some res, e')"
  using fin
proof
  assume "tick L t t' e = (TickCrash res, e')"
  from tick_crash [OF this] cur obtain m where
    "crash t' (e\<lparr>currentRound := Some (r\<lparr>currentMultiplier := m\<rparr>)\<rparr>) = (Some res, e')"
    by auto
  then show ?thesis
    by (intro exI [of _ "e\<lparr>currentRound := Some (r\<lparr>currentMultiplier := m\<rparr>)\<rparr>"] exI [of _ m])
       simp
next
  assume c: "crash t' e = (Some res, e')"
  show ?thesis
    by (intro exI [of _ e] exI [of _ "currentMultiplier r"]) (simp add: cur c)
qed

text \<open>
  C2. For a round opened by \<open>generateRound\<close>, carried by any operations of the engine
  and ended by the crash transition (through \<open>tick\<close> or directly): the hash field is
  the SHA-256 of the seed from generation on, the crash reveals that seed and that hash, the
  hash of the revealed seed is the revealed hash, every event emitted for the round before
  the crash (betting phase, round start) carries that same hash, and so does the entry put
  at the head of the history.
\<close>

theorem C2_commitment:
  assumes gen: "generateRound L now seeds e0 = (Inr r0, e1)"
    and steps: "(round_step L)\<^sup>*\<^sup>* e1 e"
    and fin: "tick L t t' e = (TickCrash res, e') \<or> crash t' e = (Some res, e')"
  shows "serverSeedHash r0 = sha256 L (serverSeed r0)
       \<and> v_serverSeed (cr_verification res) = serverSeed r0
       \<and> v_serverSeedHash (cr_verification res) = serverSeedHash r0
       \<and> sha256 L (v_serverSeed (cr_verification res)) = v_serverSeedHash (cr_verification res)
       \<and> (\<exists>evs. emitted e' = emitted e0 @ evs @ [RoundCrashEv (cr_verification res)]
             \<and> (\<forall>ev\<in>set evs. \<forall>h. event_hash ev = Some h \<longrightarrow> h = serverSeedHash r0))
       \<and> h_serverSeed (hd (roundHistory e')) = serverSeed r0
       \<and> h_serverSeedHash (hd (roundHistory e')) = serverSeedHash r0"
proof -
  from generateRound_Inr [OF gen] have g:
    "currentRound e1 = Some r0" "serverSeedHash r0 = sha256 L (serverSeed r0)"
    "emitted e1 = emitted e0"
    by simp_all
  from round_steps_carries [OF steps g(1)] obtain r evs where
    r: "currentRound e = Some r" "carries r0 r" "emitted e = emitted e1 @ evs"
       "\<forall>ev\<in>set evs. \<forall>h. event_hash ev = Some h \<longrightarrow> h = serverSeedHash r0"
    by blast
  have same: "serverSeed r = serverSeed r0" "serverSeedHash r = serverSeedHash r0"
    using r(2) by (simp_all add: carries_def same_round_def)
  from ending_crash [OF fin r(1)] obtain e2 m where
    e2: "currentRound e2 = Some (r\<lparr>currentMultiplier := m\<rparr>)" "emitted e2 = emitted e"
        "crash t' e2 = (Some res, e')"
    by blast
  from crash_result [OF e2(1) e2(3)] have c:
    "v_serverSeed (cr_verification res) = serverSeed r"
    "v_serverSeedHash (cr_verification res) = serverSeedHash r"
    "emitted e' = emitted e2 @ [RoundCrashEv (cr_verification res)]"
    "h_serverSeed (hd (roundHistory e')) = serverSeed r"
    "h_serverSeedHash (hd (roundHistory e')) = serverSeedHash r"
    by simp_all
  have "emitted e' = emitted e0 @ evs @ [RoundCrashEv (cr_verification res)]"
    using c(3) e2(2) r(3) g(3) by simp
  with r(4) have ev: "\<exists>evs. emitted e' = emitted e0 @ evs @ [RoundCrashEv (cr_verification res)]
             \<and> (\<forall>ev\<in>set evs. \<forall>h. event_hash ev = Some h \<longrightarrow> h = serverSeedHash r0)"
    by blast
  show ?thesis
    using g(2) c(1,2,4,5) same ev by simp
qed

lemma demo_crashPoint: "calculateCrashPoint demo_lib ''seed'' ''client'' 0 = Inr 1"
  by (simp add: calculateCrashPoint_def demo_lib_def readUIntBE_def Let_def js_div_def fl_def
      crashPointOfRaw_def ilog2_def round_even_def power_int_def compute_bitlen
      eval_nat_numeral)

lemmas demo_defs = demo_e1_def demo_e2_def demo_e3_def demo_e4_def demo_e5_def demo_e6_def
  demo_seeds_def new_engine_def generateRound_def startBettingPhase_def addBet_def
  startRound_def cashout_def Let_def map_has_def map_set_def demo_crashPoint

lemma demo_mult: "calculateMultiplier demo_lib 2 = 1"
  by code_simp

lemma demo_e1_round: "\<exists>r. generateRound demo_lib 1 demo_seeds new_engine = (Inr r, demo_e1)"
  by (simp add: demo_defs)

lemma demo_step12: "round_step demo_lib demo_e1 demo_e2"
  by (rule step_betting [where now = 2 and seeds = demo_seeds
        and res = "fst (startBettingPhase demo_lib 2 demo_seeds demo_e1)"])
     (simp_all add: demo_defs)

lemma demo_step23: "round_step demo_lib demo_e2 demo_e3"
  by (rule step_addBet [where p = "''alice''" and a = 10 and s = "''S1''" and now = 3
        and res = "fst (addBet ''alice'' 10 ''S1'' 3 demo_e2)"])
     (simp_all add: demo_defs)

lemma demo_step34: "round_step demo_lib demo_e3 demo_e4"
  by (rule step_addBet [where p = "''bob''" and a = 5 and s = "''S2''" and now = 4
        and res = "fst (addBet ''bob'' 5 ''S2'' 4 demo_e3)"])
     (simp_all add: demo_defs)

lemma demo_step45: "round_step demo_lib demo_e4 demo_e5"
  by (rule step_start [where now = 5 and res = "fst (startRound 5 demo_e4)"])
     (simp_all add: demo_defs)

lemma demo_step56: "round_step demo_lib demo_e5 demo_e6"
  by (rule step_cashout [where p = "''alice''" and now = 6
        and res = "fst (cashout ''alice'' 6 demo_e5)"])
     (simp_all add: demo_defs)

lemma demo_steps_from3: "(round_step demo_lib)\<^sup>*\<^sup>* demo_e3 demo_e6"
proof -
  note rtranclp.rtrancl_refl [of "round_step demo_lib" demo_e3]
  note rtranclp.rtrancl_into_rtrancl [OF this demo_step34]
  note rtranclp.rtrancl_into_rtrancl [OF this demo_step45]
  note rtranclp.rtrancl_into_rtrancl [OF this demo_step56]
  then show ?thesis .
qed

lemma demo_steps: "(round_step demo_lib)\<^sup>*\<^sup>* demo_e1 demo_e6"
proof -
  note rtranclp.rtrancl_refl [of "round_step demo_lib" demo_e1]
  note rtranclp.rtrancl_into_rtrancl [OF this demo_step12]
  note rtranclp.rtrancl_into_rtrancl [OF this demo_step23]
  then show ?thesis using demo_steps_from3 by (rule rtranclp_trans)
qed

lemma demo_tick: "is_TickCrash (fst (tick demo_lib 7 8 demo_e6))"
  by (simp add: tick_def demo_defs demo_mult crash_def)

theorem C2_witness:
  "is_TickCrash (fst (tick demo_lib 7 8 demo_e6))
   \<and> (case fst (tick demo_lib 7 8 demo_e6) of
         TickCrash res \<Rightarrow>
           sha256 demo_lib (v_serverSeed (cr_verification res))
             = v_serverSeedHash (cr_verification res)
       | _ \<Rightarrow> False)"
proof -
  obtain r0 where g: "generateRound demo_lib 1 demo_seeds new_engine = (Inr r0, demo_e1)"
    using demo_e1_round by blast
  obtain res e' where t: "tick demo_lib 7 8 demo_e6 = (TickCrash res, e')"
    using demo_tick by (cases "tick demo_lib 7 8 demo_e6"; cases "fst (tick demo_lib 7 8 demo_e6)") auto
  from C2_commitment [OF g demo_steps disjI1 [OF t]]
  show ?thesis by (simp add: t)
qed









lemma crash_Some:
  "currentRound eng = Some r0 \<Longrightarrow> \<exists>res eng'. crash now eng = (Some res, eng')"
  by (simp add: crash_def Let_def)



lemma demo_e6_round:
  "currentRound demo_e6 = Some demo_r6" "status demo_r6 = Running"
  "startTime demo_r6 = Some 5" "crashPoint demo_r6 = 1"
  "map fst (bets demo_r6) = [''alice'', ''bob'']"
  "map fst (cashedOut demo_r6) = [''alice'']"
  by (simp_all add: demo_r6_def demo_defs)


text \<open>
  C8 (as amended). On a running round \<open>tick\<close> computes the multiplier of the elapsed time.
  When it has reached the crash point, \<open>tick\<close> performs the crash transition and returns
  the round, crashed and with its multiplier set to the crash point, and the losers: the
  bets, in the order they were placed, of exactly the players with no recorded cashout.
  Otherwise it stores the multiplier, emits it and returns it. After the crash transition
  the engine has no current round, and a cashout throws "No active round".
\<close>

theorem C8_tick:
  assumes "currentRound eng = Some r" and "status r = Running"
  shows "let elapsed = now - (case startTime r of None \<Rightarrow> 0 | Some s \<Rightarrow> s);
             m = calculateMultiplier L (of_int elapsed)
         in (crashPoint r \<le> m \<longrightarrow>
               (\<exists>res eng'. tick L now endNow eng = (TickCrash res, eng')
                  \<and> cr_round res = r\<lparr>status := Crashed, endTime := Some endNow,
                                       currentMultiplier := crashPoint r\<rparr>
                  \<and> cr_losers res = filter (\<lambda>(p, b). \<not> map_has p (cashedOut r)) (bets r)
                  \<and> (\<forall>p. map_has p (cashedOut r) \<longrightarrow> p \<notin> fst ` set (cr_losers res))
                  \<and> (\<forall>p b. (p, b) \<in> set (bets r) \<and> \<not> map_has p (cashedOut r)
                        \<longrightarrow> (p, b) \<in> set (cr_losers res))
                  \<and> currentRound eng' = None
                  \<and> (\<forall>q t. cashout q t eng' = (Inl NoActiveRound, eng'))))
          \<and> (\<not> crashPoint r \<le> m \<longrightarrow>
                tick L now endNow eng =
                  (TickMultiplier m,
                   eng\<lparr>currentRound := Some (r\<lparr>currentMultiplier := m\<rparr>),
                       emitted := emitted eng @ [RoundTickEv (round_id r) m elapsed]\<rparr>))"
proof -
  define elapsed where "elapsed = now - (case startTime r of None \<Rightarrow> 0 | Some s \<Rightarrow> s)"
  define m where "m = calculateMultiplier L (of_int elapsed)"
  define eng1 where "eng1 = eng\<lparr>currentRound := Some (r\<lparr>currentMultiplier := m\<rparr>)\<rparr>"
  have below: "tick L now endNow eng =
                  (TickMultiplier m, eng1\<lparr>emitted := emitted eng @ [RoundTickEv (round_id r) m elapsed]\<rparr>)"
    if "\<not> crashPoint r \<le> m"
    using that assms by (simp add: tick_def Let_def elapsed_def m_def eng1_def)
  have above: "\<exists>res eng'. tick L now endNow eng = (TickCrash res, eng')
                  \<and> cr_round res = r\<lparr>status := Crashed, endTime := Some endNow,
                                       currentMultiplier := crashPoint r\<rparr>
                  \<and> cr_losers res = filter (\<lambda>(p, b). \<not> map_has p (cashedOut r)) (bets r)
                  \<and> currentRound eng' = None"
    if "crashPoint r \<le> m"
  proof -
    have cur1: "currentRound eng1 = Some (r\<lparr>currentMultiplier := m\<rparr>)"
      by (simp add: eng1_def)
    obtain res eng' where c: "crash endNow eng1 = (Some res, eng')"
      using crash_Some [OF cur1] by blast
    have t: "tick L now endNow eng = (TickCrash res, eng')"
      using that assms c by (simp add: tick_def Let_def elapsed_def m_def eng1_def)
    from crash_result [OF cur1 c] t show ?thesis by simp
  qed
  have losers: "(\<forall>p. map_has p (cashedOut r) \<longrightarrow> p \<notin> fst ` set ls)
              \<and> (\<forall>p b. (p, b) \<in> set (bets r) \<and> \<not> map_has p (cashedOut r) \<longrightarrow> (p, b) \<in> set ls)"
    if "ls = filter (\<lambda>(p, b). \<not> map_has p (cashedOut r)) (bets r)" for ls
    using that by auto
  show ?thesis
    unfolding Let_def elapsed_def [symmetric] m_def [symmetric]
  proof (intro conjI impI)
    assume "crashPoint r \<le> m"
    from above [OF this] obtain res eng' where
      r: "tick L now endNow eng = (TickCrash res, eng')"
         "cr_round res = r\<lparr>status := Crashed, endTime := Some endNow,
                            currentMultiplier := crashPoint r\<rparr>"
         "cr_losers res = filter (\<lambda>(p, b). \<not> map_has p (cashedOut r)) (bets r)"
         "currentRound eng' = None"
      by blast
    from r(4) have "\<forall>q t. cashout q t eng' = (Inl NoActiveRound, eng')"
      by (simp add: no_round_cashout)
    with r losers [OF r(3)] show "\<exists>res eng'. tick L now endNow eng = (TickCrash res, eng')
                  \<and> cr_round res = r\<lparr>status := Crashed, endTime := Some endNow,
                                       currentMultiplier := crashPoint r\<rparr>
                  \<and> cr_losers res = filter (\<lambda>(p, b). \<not> map_has p (cashedOut r)) (bets r)
                  \<and> (\<forall>p. map_has p (cashedOut r) \<longrightarrow> p \<notin> fst ` set (cr_losers res))
                  \<and> (\<forall>p b. (p, b) \<in> set (bets r) \<and> \<not> map_has p (cashedOut r)
                        \<longrightarrow> (p, b) \<in> set (cr_losers res))
                  \<and> currentRound eng' = None
                  \<and> (\<forall>q t. cashout q t eng' = (Inl NoActiveRound, eng'))"
      by (intro exI [of _ res] exI [of _ eng']) simp
  next
    assume "\<not> crashPoint r \<le> m"
    from below [OF this] show "tick L now endNow eng =
                  (TickMultiplier m,
                   eng\<lparr>currentRound := Some (r\<lparr>currentMultiplier := m\<rparr>),
                       emitted := emitted eng @ [RoundTickEv (round_id r) m elapsed]\<rparr>)"
      by (simp add: eng1_def)
  qed
qed

lemma tick_crash_clears:
  "tick L now endNow eng = (TickCrash res, eng') \<Longrightarrow> currentRound eng' = None"
  by (auto simp: tick_def Let_def split: option.splits if_splits prod.splits dest: crash_clears)

theorem C8_witness:
  "is_TickCrash (fst (tick demo_lib 7 8 demo_e6))
   \<and> (case fst (tick demo_lib 7 8 demo_e6) of
         TickCrash res \<Rightarrow> map fst (cr_losers res) = [''bob'']
       | _ \<Rightarrow> False)"
proof -
  note r = demo_e6_round
  let ?r = demo_r6
  have m: "crashPoint ?r \<le> calculateMultiplier demo_lib (of_int (7 - 5))"
    using r(4) demo_mult by simp
  have "\<exists>res eng'. tick demo_lib 7 8 demo_e6 = (TickCrash res, eng')
          \<and> cr_losers res = filter (\<lambda>(p, b). \<not> map_has p (cashedOut ?r)) (bets ?r)"
    using C8_tick [OF r(1,2), of 7 demo_lib 8] m
    unfolding Let_def r(3) option.case by blast
  then obtain res eng' where t: "tick demo_lib 7 8 demo_e6 = (TickCrash res, eng')"
      "cr_losers res = filter (\<lambda>(p, b). \<not> map_has p (cashedOut ?r)) (bets ?r)"
    by blast
  have has: "map_has p (cashedOut ?r) \<longleftrightarrow> p \<in> set (map fst (cashedOut ?r))" for p
    by (simp add: map_has_iff)
  have "map fst (filter (\<lambda>(p, b). \<not> map_has p (cashedOut ?r)) (bets ?r))
          = filter (\<lambda>p. \<not> map_has p (cashedOut ?r)) (map fst (bets ?r))"
    by (simp add: filter_map comp_def case_prod_unfold)
  also have "\<dots> = [''bob'']"
    unfolding has r(5,6) by simp
  finally show ?thesis using t by simp
qed

theorem C8_counterexample:
  "is_TickCrash (fst (tick demo_lib 7 8 demo_e6))
   \<and> fst (cashout ''bob'' 9 (snd (tick demo_lib 7 8 demo_e6))) \<noteq> Inl RoundNotRunning"
proof -
  obtain res e' where t: "tick demo_lib 7 8 demo_e6 = (TickCrash res, e')"
    using demo_tick
    by (cases "tick demo_lib 7 8 demo_e6"; cases "fst (tick demo_lib 7 8 demo_e6)") auto
  from tick_crash_clears [OF t] have "cashout ''bob'' 9 e' = (Inl NoActiveRound, e')"
    by (rule no_round_cashout)
  with t show ?thesis by simp
qed

lemma addBet_fail_unchanged:
  "addBet p a s now eng = (Inl e, eng') \<Longrightarrow> eng' = eng"
  by (auto simp: addBet_def Let_def split: option.splits if_splits)

lemma addBet_success:
  assumes "currentRound eng = Some r" "status r = Betting" "\<not> map_has p (bets r)"
  shows "\<exists>b eng'. addBet p a s now eng = (Inr b, eng') \<and> bet_amount b = a
           \<and> getPlayerBet p eng' = Some b"
  using assms
  by (simp add: addBet_def Let_def getPlayerBet_def map_set_def update_conv')

lemma addBet_Inr:
  assumes "addBet p a s now eng = (Inr b, eng')"
  shows "\<exists>r'. currentRound eng' = Some r' \<and> map_of (bets r') p = Some b"
  using assms
  by (auto simp: addBet_def Let_def map_set_def update_conv' split: option.splits if_splits)

lemma placeBet_amount_rejected:
  assumes "amount_check amount = Inl e"
  shows "\<exists>e'. placeBet S E sid amount others sh w = (Inl e', sh, w)"
  using assms by (simp add: placeBet_def placeBet_checks_def split: sum.splits)

lemma amount_out_of_bounds:
  "x < MIN_BET \<or> x > MAX_BET \<Longrightarrow> isl (amount_check (Num x))"
  by (auto simp: amount_check_def)

text \<open>
  C7 (as amended). \<open>addBet\<close> throws when there is no round, when the round is not in its
  betting phase and when the player has a bet in the round already, and a call that throws
  leaves the engine as it was; in every other state it registers the bet, whatever the
  amount. The bounds on the amount are those of \<open>placeBet\<close> of the bet service, which
  throws before the platform is called and before the engine is touched when the amount is
  below \<open>MIN_BET\<close> or above \<open>MAX_BET\<close>. A registered bet is kept by every later
  operation on the round and is in the round that the crash transition returns; the bets
  of a round have distinct players.
\<close>

theorem C7_addBet:
  "(currentRound eng = None \<longrightarrow> addBet p a s now eng = (Inl NoActiveRound, eng))
   \<and> (\<forall>r. currentRound eng = Some r \<and> status r \<noteq> Betting
          \<longrightarrow> addBet p a s now eng = (Inl BettingPhaseEnded, eng))
   \<and> (\<forall>r. currentRound eng = Some r \<and> status r = Betting \<and> map_has p (bets r)
          \<longrightarrow> addBet p a s now eng = (Inl AlreadyPlacedBet, eng))
   \<and> (\<forall>r. currentRound eng = Some r \<and> status r = Betting \<and> \<not> map_has p (bets r)
          \<longrightarrow> (\<exists>b eng'. addBet p a s now eng = (Inr b, eng') \<and> bet_amount b = a
                 \<and> getPlayerBet p eng' = Some b))
   \<and> (\<forall>e eng'. addBet p a s now eng = (Inl e, eng') \<longrightarrow> eng' = eng)
   \<and> (\<forall>b eng' eng2. addBet p a s now eng = (Inr b, eng') \<and> (round_step L)\<^sup>*\<^sup>* eng' eng2
          \<longrightarrow> getPlayerBet p eng2 = Some b
            \<and> (\<forall>t t' res e3. tick L t t' eng2 = (TickCrash res, e3) \<or> crash t' eng2 = (Some res, e3)
                  \<longrightarrow> map_of (bets (cr_round res)) p = Some b))
   \<and> (\<forall>t seeds e0 r0 e1 r. generateRound L t seeds e0 = (Inr r0, e1)
          \<and> (round_step L)\<^sup>*\<^sup>* e1 eng \<and> currentRound eng = Some r
          \<longrightarrow> distinct (map fst (bets r)))
   \<and> (\<forall>e. amount_check amount = Inl e
          \<longrightarrow> (\<exists>e'. placeBet S E sid amount others sh w = (Inl e', sh, w)))
   \<and> (\<forall>x. x < MIN_BET \<or> x > MAX_BET \<longrightarrow> isl (amount_check (Num x)))"
proof (intro conjI allI impI)
  assume "currentRound eng = None"
  then show "addBet p a s now eng = (Inl NoActiveRound, eng)" by (rule no_round_addBet)
next
  fix r assume "currentRound eng = Some r \<and> status r \<noteq> Betting"
  then show "addBet p a s now eng = (Inl BettingPhaseEnded, eng)" by (simp add: addBet_def)
next
  fix r assume "currentRound eng = Some r \<and> status r = Betting \<and> map_has p (bets r)"
  then show "addBet p a s now eng = (Inl AlreadyPlacedBet, eng)" by (simp add: addBet_def)
next
  fix r assume "currentRound eng = Some r \<and> status r = Betting \<and> \<not> map_has p (bets r)"
  then show "\<exists>b eng'. addBet p a s now eng = (Inr b, eng') \<and> bet_amount b = a
                 \<and> getPlayerBet p eng' = Some b"
    using addBet_success by blast
next
  fix e eng' assume "addBet p a s now eng = (Inl e, eng')"
  then show "eng' = eng" by (rule addBet_fail_unchanged)
next
  fix b eng' eng2
  assume a: "addBet p a s now eng = (Inr b, eng') \<and> (round_step L)\<^sup>*\<^sup>* eng' eng2"
  from a addBet_Inr obtain r' where r': "currentRound eng' = Some r'" "map_of (bets r') p = Some b"
    by blast
  from a have st: "(round_step L)\<^sup>*\<^sup>* eng' eng2" by simp
  from round_steps_carries [OF st r'(1)] obtain r2 where
    r2: "currentRound eng2 = Some r2" "carries r' r2" by blast
  with r'(2) have b2: "map_of (bets r2) p = Some b" by (simp add: carries_def)
  with r2(1) show "getPlayerBet p eng2 = Some b" by (simp add: getPlayerBet_def)
  {
    fix t t' res e3
    assume fin: "tick L t t' eng2 = (TickCrash res, e3) \<or> crash t' eng2 = (Some res, e3)"
    from ending_crash [OF fin r2(1)] obtain e m where
      e: "currentRound e = Some (r2\<lparr>currentMultiplier := m\<rparr>)" "crash t' e = (Some res, e3)"
      by blast
    from crash_result [OF e] b2 show "map_of (bets (cr_round res)) p = Some b" by simp
  }
next
  fix t seeds e0 r0 e1 r
  assume a: "generateRound L t seeds e0 = (Inr r0, e1)
          \<and> (round_step L)\<^sup>*\<^sup>* e1 eng \<and> currentRound eng = Some r"
  from generateRound_Inr [of L t seeds e0 r0 e1] a have g: "currentRound e1 = Some r0" "wf_round r0"
    by (simp_all add: wf_round_def map_has_def)
  from a have st: "(round_step L)\<^sup>*\<^sup>* e1 eng" and cur: "currentRound eng = Some r"
    by simp_all
  from round_steps_wf [OF st g] cur show "distinct (map fst (bets r))"
    by (auto simp: wf_round_def)
next
  fix e assume "amount_check amount = Inl e"
  then show "\<exists>e'. placeBet S E sid amount others sh w = (Inl e', sh, w)"
    by (rule placeBet_amount_rejected)
next
  fix x :: real assume "x < MIN_BET \<or> x > MAX_BET"
  then show "isl (amount_check (Num x))" by (rule amount_out_of_bounds)
qed

theorem C7_counterexample:
  "(0 :: real) < MIN_BET \<and> \<not> isl (fst (addBet ''carol'' 0 ''S3'' 3 demo_e2))"
  by (simp add: demo_defs MIN_BET_def)

theorem C7_witness:
  "getPlayerBet ''alice'' demo_e6 = Some demo_alice_bet \<and> isl (amount_check (Num (1 / 2)))"
proof -
  have a: "addBet ''alice'' 10 ''S1'' 3 demo_e2 = (Inr demo_alice_bet, demo_e3)"
    by (simp add: demo_defs demo_alice_bet_def)
  have b: "(1 / 2 :: real) < MIN_BET" by (simp add: MIN_BET_def)
  note C7_addBet [of demo_e2 "''alice''" 10 "''S1''" 3 demo_lib]
  then have "getPlayerBet ''alice'' demo_e6 = Some demo_alice_bet"
    using a demo_steps_from3 by meson
  moreover have "isl (amount_check (Num (1 / 2)))"
    using C7_addBet [of demo_e2 "''alice''" 10 "''S1''" 3 demo_lib] b by meson
  ultimately show ?thesis by simp
qed



lemma attempt_result_Inr:
  "attempt_result out = Inr d \<longleftrightarrow> (\<exists>code. out = HttpResponse True code d)"
  by (auto simp: attempt_result_def split: outcome.splits)
















lemma placeBet_checks_fail:
  "placeBet_checks S sid amount sh = Inl e \<Longrightarrow> placeBet S E sid amount others sh w = (Inl e, sh, w)"
  by (simp add: placeBet_def)
















section \<open>Properties of the rounding\<close>

lemma round_even_of_int [simp]: "round_even (of_int k) = k"
  by (simp add: round_even_def)

lemma round_even_bounds: "\<lfloor>x\<rfloor> \<le> round_even x \<and> round_even x \<le> \<lfloor>x\<rfloor> + 1"
  by (simp add: round_even_def Let_def)

lemma round_even_mono:
  assumes "x \<le> y"
  shows "round_even x \<le> round_even y"
proof (cases "\<lfloor>x\<rfloor> = \<lfloor>y\<rfloor>")
  case True
  with assms have "x - of_int \<lfloor>x\<rfloor> \<le> y - of_int \<lfloor>y\<rfloor>" by simp
  with True show ?thesis
    by (auto simp: round_even_def Let_def)
next
  case False
  with assms have "\<lfloor>x\<rfloor> < \<lfloor>y\<rfloor>"
    using floor_mono [OF assms] by simp
  with round_even_bounds [of x] round_even_bounds [of y] show ?thesis by linarith
qed

lemma round_even_ge:
  assumes "of_int k \<le> x"
  shows "k \<le> round_even x"
  using round_even_mono [OF assms] by simp

lemma round_even_le:
  assumes "x \<le> of_int k"
  shows "round_even x \<le> k"
  using round_even_mono [OF assms] by simp

lemma ilog2_bounds:
  assumes "0 < x"
  shows "2 powi (ilog2 x) \<le> x \<and> x < 2 powi (ilog2 x + 1)"
proof (cases "1 \<le> x")
  case True
  then have pos: "0 < \<lfloor>x\<rfloor>" by linarith
  from bitlen_bounds [OF pos]
  have b: "2 ^ nat (bitlen \<lfloor>x\<rfloor> - 1) \<le> \<lfloor>x\<rfloor>" "\<lfloor>x\<rfloor> < 2 ^ nat (bitlen \<lfloor>x\<rfloor>)"
    by simp_all
  have k: "1 \<le> bitlen \<lfloor>x\<rfloor>"
    using pos bitlen_eq_zero_iff [of "\<lfloor>x\<rfloor>"] bitlen_nonneg [of "\<lfloor>x\<rfloor>"] by linarith
  have e: "ilog2 x = bitlen \<lfloor>x\<rfloor> - 1" using True by (simp add: ilog2_def)
  have "(2::real) powi (bitlen \<lfloor>x\<rfloor> - 1) = 2 ^ nat (bitlen \<lfloor>x\<rfloor> - 1)"
    using k by (simp add: power_int_def)
  also have "\<dots> = of_int (2 ^ nat (bitlen \<lfloor>x\<rfloor> - 1))" by simp
  also have "\<dots> \<le> of_int \<lfloor>x\<rfloor>" using b(1) by (simp only: of_int_le_iff)
  also have "\<dots> \<le> x" by simp
  finally have lo: "2 powi (ilog2 x) \<le> x" by (simp add: e)
  have "\<lfloor>x\<rfloor> + 1 \<le> 2 ^ nat (bitlen \<lfloor>x\<rfloor>)" using b(2) by simp
  then have "of_int (\<lfloor>x\<rfloor> + 1) \<le> (of_int (2 ^ nat (bitlen \<lfloor>x\<rfloor>)) :: real)"
    by (simp only: of_int_le_iff)
  then have "of_int \<lfloor>x\<rfloor> + 1 \<le> (2 ^ nat (bitlen \<lfloor>x\<rfloor>) :: real)" by simp
  moreover have "x < of_int \<lfloor>x\<rfloor> + 1" by linarith
  ultimately have "x < 2 ^ nat (bitlen \<lfloor>x\<rfloor>)" by linarith
  also have "\<dots> = 2 powi (bitlen \<lfloor>x\<rfloor>)" using k by (simp add: power_int_def)
  finally have hi: "x < 2 powi (ilog2 x + 1)" by (simp add: e)
  from lo hi show ?thesis ..
next
  case False
  then have x1: "x < 1" by simp
  define y where "y = 1 / x"
  define n where "n = \<lceil>y\<rceil> - 1"
  define k where "k = bitlen n"
  have y1: "1 < y" using assms x1 by (simp add: y_def)
  have ny: "of_int n < y" "y \<le> of_int n + 1"
    unfolding n_def by linarith+
  have npos: "0 < n" using y1 ny(2) by linarith
  from bitlen_bounds [OF npos]
  have b: "2 ^ nat (k - 1) \<le> n" "n < 2 ^ nat k" by (simp_all add: k_def)
  have k1: "1 \<le> k"
    using npos bitlen_eq_zero_iff [of n] bitlen_nonneg [of n] unfolding k_def by linarith
  have e: "ilog2 x = - k" using x1 by (simp add: ilog2_def k_def n_def y_def)
  have "n + 1 \<le> 2 ^ nat k" using b(2) by simp
  then have "real_of_int (n + 1) \<le> real_of_int (2 ^ nat k)"
    by (rule of_int_le_iff [THEN iffD2])
  then have "real_of_int n + 1 \<le> (2::real) ^ nat k" by simp
  with ny(2) have yk: "y \<le> 2 ^ nat k" by linarith
  have "real_of_int (2 ^ nat (k - 1)) \<le> real_of_int n"
    by (rule of_int_le_iff [THEN iffD2, OF b(1)])
  then have "(2::real) ^ nat (k - 1) \<le> real_of_int n" by simp
  with ny(1) have yk1: "2 ^ nat (k - 1) < y" by linarith
  have xy: "x = 1 / y" using assms by (simp add: y_def)
  have "2 powi (- k) = 1 / (2::real) ^ nat k"
    using k1 by (simp add: power_int_def field_simps)
  also have "\<dots> \<le> 1 / y" using yk y1 by (simp add: frac_le)
  finally have "2 powi (- k) \<le> 1 / y" .
  then have lo: "2 powi (ilog2 x) \<le> x" unfolding e xy [symmetric] .
  have "1 / y < 1 / 2 ^ nat (k - 1)" using yk1 by (simp add: frac_less2)
  also have "\<dots> = 2 powi (- k + 1)"
    using k1 by (simp add: power_int_def field_simps nat_diff_distrib)
  finally have "1 / y < 2 powi (- k + 1)" .
  then have hi: "x < 2 powi (ilog2 x + 1)" unfolding e xy [symmetric] .
  from lo hi show ?thesis ..
qed

lemma ilog2_mono:
  assumes "0 < x" "x \<le> y"
  shows "ilog2 x \<le> ilog2 y"
proof (rule ccontr)
  assume "\<not> ilog2 x \<le> ilog2 y"
  then have "ilog2 y + 1 \<le> ilog2 x" by simp
  then have "(2::real) powi (ilog2 y + 1) \<le> 2 powi (ilog2 x)"
    by (intro power_int_increasing) simp_all
  also have "\<dots> \<le> x" using ilog2_bounds [OF assms(1)] by simp
  finally have "2 powi (ilog2 y + 1) \<le> y" using assms(2) by simp
  moreover have "y < 2 powi (ilog2 y + 1)" using ilog2_bounds [of y] assms by simp
  ultimately show False by simp
qed

lemma fl_zero [simp]: "fl 0 = 0"
  by (simp add: fl_def)

lemma fl_minus: "fl (- x) = - fl x"
  by (simp add: fl_def Let_def sgn_minus)

lemma two_powi_add: "(2::real) powi (a + int n) = 2 powi a * 2 ^ n"
proof -
  have "(2::real) powi (a + int n) = 2 powi a * 2 powi (int n)" by (rule power_int_add) simp
  then show ?thesis by simp
qed

lemma two_powi_shift53: "(2::real) powi (e + 1) = 2 powi (e - 52) * 2 ^ 53"
proof -
  have "e + 1 = (e - 52) + int 53" by simp
  then have "(2::real) powi (e + 1) = 2 powi ((e - 52) + int 53)" by (rule arg_cong)
  also have "\<dots> = 2 powi (e - 52) * 2 ^ 53" by (rule two_powi_add)
  finally show ?thesis .
qed

lemma two_powi_shift52: "(2::real) powi e = 2 powi (e - 52) * 2 ^ 52"
proof -
  have "e = (e - 52) + int 52" by simp
  then have "(2::real) powi e = 2 powi ((e - 52) + int 52)" by (rule arg_cong)
  also have "\<dots> = 2 powi (e - 52) * 2 ^ 52" by (rule two_powi_add)
  finally show ?thesis .
qed

lemma quantum_pos: "0 < quantum x"
  by (simp add: quantum_def)

lemma fl_pos:
  assumes "0 < x"
  shows "fl x = of_int (round_even (x / quantum x)) * quantum x"
  using assms by (simp add: fl_def quantum_def Let_def)

lemma quantum_mono:
  assumes "0 < x" "x \<le> y"
  shows "quantum x \<le> quantum y"
proof -
  from assms have "ilog2 \<bar>x\<bar> \<le> ilog2 \<bar>y\<bar>"
    using ilog2_mono [of x y] by simp
  then show ?thesis
    unfolding quantum_def by (intro power_int_increasing) simp_all
qed

lemma scaled_upper:
  assumes "0 < x"
  shows "x / quantum x < 2 ^ 53"
proof -
  let ?e = "max (ilog2 \<bar>x\<bar>) (- 1022)"
  have "x < 2 powi (ilog2 x + 1)" using ilog2_bounds [OF assms] by simp
  also have "\<dots> \<le> 2 powi (?e + 1)"
    using assms by (intro power_int_increasing) simp_all
  also have "\<dots> = 2 powi (?e - 52) * 2 ^ 53"
    by (rule two_powi_shift53)
  finally have "x < quantum x * 2 ^ 53" by (simp add: quantum_def)
  then show ?thesis using quantum_pos [of x] by (simp add: field_simps)
qed

lemma fl_upper:
  assumes "0 < x"
  shows "fl x \<le> 2 powi (max (ilog2 x) (- 1022) + 1)"
proof -
  let ?e = "max (ilog2 \<bar>x\<bar>) (- 1022)"
  have "x / quantum x \<le> of_int (2 ^ 53)" using scaled_upper [OF assms] by simp
  from round_even_le [OF this] have "round_even (x / quantum x) \<le> 2 ^ 53" .
  then have "real_of_int (round_even (x / quantum x)) \<le> real_of_int (2 ^ 53)"
    by (rule of_int_le_iff [THEN iffD2])
  then have "real_of_int (round_even (x / quantum x)) * quantum x \<le> 2 ^ 53 * quantum x"
    using quantum_pos [of x] by (simp add: mult_right_mono)
  also have "\<dots> = 2 powi (?e - 52) * 2 ^ 53" by (simp add: quantum_def)
  also have "\<dots> = 2 powi (?e + 1)" by (rule two_powi_shift53 [symmetric])
  finally show ?thesis using assms by (simp add: fl_pos)
qed

lemma fl_lower:
  assumes "0 < x" "- 1022 \<le> ilog2 x"
  shows "2 powi (ilog2 x) \<le> fl x"
proof -
  have q: "quantum x = 2 powi (ilog2 x - 52)" using assms by (simp add: quantum_def max_def)
  have p: "(2::real) powi (ilog2 x) = quantum x * 2 ^ 52"
    unfolding q by (rule two_powi_shift52)
  have "2 powi (ilog2 x) \<le> x" using ilog2_bounds [OF assms(1)] by simp
  then have "quantum x * 2 ^ 52 \<le> x" unfolding p .
  then have "of_int (2 ^ 52) \<le> x / quantum x"
    using quantum_pos [of x] by (simp add: field_simps)
  from round_even_ge [OF this] have "2 ^ 52 \<le> round_even (x / quantum x)" .
  then have "real_of_int (2 ^ 52) \<le> real_of_int (round_even (x / quantum x))"
    by (rule of_int_le_iff [THEN iffD2])
  then have "real_of_int (2 ^ 52) * quantum x
               \<le> real_of_int (round_even (x / quantum x)) * quantum x"
    using quantum_pos [of x] by (intro mult_right_mono) simp_all
  moreover have "real_of_int (2 ^ 52) * quantum x = 2 powi (ilog2 x)"
    unfolding p by simp
  ultimately show ?thesis using assms(1) by (simp only: fl_pos)
qed

lemma fl_nonneg:
  assumes "0 \<le> x"
  shows "0 \<le> fl x"
proof (cases "x = 0")
  case True
  then show ?thesis by simp
next
  case False
  with assms have pos: "0 < x" by simp
  have "0 \<le> x / quantum x" using pos quantum_pos [of x] by simp
  then have "of_int 0 \<le> x / quantum x" by simp
  from round_even_ge [OF this] have "0 \<le> round_even (x / quantum x)" .
  then show ?thesis using pos quantum_pos [of x] by (simp add: fl_pos)
qed

lemma fl_mono_pos:
  assumes "0 < x" "x \<le> y"
  shows "fl x \<le> fl y"
proof -
  from assms have ypos: "0 < y" by simp
  let ?ex = "max (ilog2 x) (- 1022)" and ?ey = "max (ilog2 y) (- 1022)"
  have le: "?ex \<le> ?ey" using ilog2_mono [OF assms] by simp
  show ?thesis
  proof (cases "?ex = ?ey")
    case True
    then have q: "quantum x = quantum y" using assms ypos by (simp add: quantum_def)
    have "x / quantum y \<le> y / quantum y"
      using assms(2) quantum_pos [of y] by (simp add: divide_right_mono)
    from round_even_mono [OF this]
    have "real_of_int (round_even (x / quantum y)) \<le> real_of_int (round_even (y / quantum y))"
      by (rule of_int_le_iff [THEN iffD2])
    then have "real_of_int (round_even (x / quantum y)) * quantum y
                 \<le> real_of_int (round_even (y / quantum y)) * quantum y"
      using quantum_pos [of y] by (simp add: mult_right_mono)
    then show ?thesis using assms(1) ypos by (simp add: fl_pos q)
  next
    case False
    with le have lt: "?ex + 1 \<le> ?ey" by simp
    then have normal: "- 1022 \<le> ilog2 y" "?ey = ilog2 y" by (simp_all add: max_def split: if_splits)
    have "fl x \<le> 2 powi (?ex + 1)" by (rule fl_upper [OF assms(1)])
    also have "\<dots> \<le> 2 powi ?ey" using lt by (intro power_int_increasing) simp_all
    also have "\<dots> = 2 powi (ilog2 y)" using normal(2) by simp
    also have "\<dots> \<le> fl y" by (rule fl_lower [OF ypos normal(1)])
    finally show ?thesis .
  qed
qed

lemma fl_mono:
  assumes "x \<le> y"
  shows "fl x \<le> fl y"
proof -
  consider "0 < x" | "x \<le> 0" "0 \<le> y" | "y < 0" by linarith
  then show ?thesis
  proof cases
    case 1
    then show ?thesis using assms by (rule fl_mono_pos)
  next
    case 2
    from 2(1) have "0 \<le> fl (- x)" by (intro fl_nonneg) simp
    then have "fl x \<le> 0" by (simp add: fl_minus)
    also have "0 \<le> fl y" using 2(2) by (rule fl_nonneg)
    finally show ?thesis .
  next
    case 3
    then have "0 < - y" "- y \<le> - x" using assms by simp_all
    from fl_mono_pos [OF this] show ?thesis by (simp add: fl_minus)
  qed
qed

lemma fl_exact_pos:
  assumes "0 < k" "k < 2 ^ 53" "- 1074 \<le> j"
  shows "fl (of_int k * 2 powi j) = of_int k * 2 powi j"
proof -
  define x where "x = real_of_int k * 2 powi j"
  have pos: "0 < x" using assms(1) by (simp add: x_def)
  define e where "e = max (ilog2 \<bar>x\<bar>) (- 1022)"
  have "real_of_int k < real_of_int (2 ^ 53)"
    by (rule of_int_less_iff [THEN iffD2, OF assms(2)])
  then have "x < 2 powi j * 2 ^ 53" by (simp add: x_def)
  also have "\<dots> = 2 powi (j + int 53)" by (rule two_powi_add [symmetric])
  finally have xlt: "x < 2 powi (j + 53)" by simp
  have "ilog2 x < j + 53"
  proof (rule ccontr)
    assume "\<not> ilog2 x < j + 53"
    then have "(2::real) powi (j + 53) \<le> 2 powi (ilog2 x)"
      by (intro power_int_increasing) simp_all
    also have "\<dots> \<le> x" using ilog2_bounds [OF pos] by simp
    finally show False using xlt by simp
  qed
  with assms(3) pos have e: "e \<le> j + 52" by (simp add: e_def)
  define d where "d = nat (j + 52 - e)"
  have q: "quantum x = 2 powi (e - 52)" by (simp add: quantum_def e_def)
  have "j = (e - 52) + int d" using e by (simp add: d_def)
  then have "(2::real) powi j = 2 powi ((e - 52) + int d)" by (rule arg_cong)
  also have "\<dots> = 2 powi (e - 52) * 2 ^ d" by (rule two_powi_add)
  finally have j: "(2::real) powi j = quantum x * 2 ^ d" by (simp only: q)
  have xk: "x = real_of_int k * 2 powi j" by (simp only: x_def)
  from j have "real_of_int k * 2 powi j = real_of_int k * (quantum x * 2 ^ d)"
    by (rule arg_cong)
  with xk have X: "x = real_of_int k * (quantum x * 2 ^ d)" by (rule trans)
  then have "x / quantum x = real_of_int k * (quantum x * 2 ^ d) / quantum x"
    by (rule arg_cong [where f = "\<lambda>t. t / quantum x"])
  also have "\<dots> = real_of_int k * 2 ^ d" using quantum_pos [of x] by simp
  also have "\<dots> = real_of_int (k * 2 ^ d)" by simp
  finally have "round_even (x / quantum x) = k * 2 ^ d"
    by (simp only: round_even_of_int)
  then have "fl x = real_of_int (k * 2 ^ d) * quantum x"
    using pos by (simp only: fl_pos)
  also have "\<dots> = real_of_int k * (quantum x * 2 ^ d)" by simp
  also have "\<dots> = x" by (rule X [symmetric])
  finally have "fl x = x" .
  then show ?thesis unfolding x_def .
qed

lemma fl_of_nat_frac:
  assumes "h < 2 ^ 48"
  shows "fl (real h / 2 ^ 48) = real h / 2 ^ 48"
proof (cases "h = 0")
  case True
  then show ?thesis by simp
next
  case False
  then have "0 < int h" by simp
  moreover from assms have "int h < 2 ^ 53"
    by (simp add: order_less_trans [of _ "2 ^ 48"])
  ultimately have "fl (of_int (int h) * 2 powi (- 48)) = of_int (int h) * 2 powi (- 48)"
    by (rule fl_exact_pos) simp
  then show ?thesis by (simp add: power_int_minus field_simps)
qed

lemma fl_of_int:
  assumes "0 \<le> k" "k < 2 ^ 53"
  shows "fl (of_int k) = of_int k"
proof (cases "k = 0")
  case True
  then show ?thesis by simp
next
  case False
  with assms have "0 < k" by simp
  from fl_exact_pos [OF this assms(2), of 0] show ?thesis by simp
qed

lemma foldl_be_append:
  "foldl (\<lambda>acc b. acc * 256 + unat b) a (xs @ ys)
     = foldl (\<lambda>acc (b :: 8 word). acc * 256 + unat b) (foldl (\<lambda>acc b. acc * 256 + unat b) a xs) ys"
  by simp

lemma foldl_be_init:
  "foldl (\<lambda>acc (b :: 8 word). acc * 256 + unat b) a ys
     = a * 256 ^ length ys + foldl (\<lambda>acc b. acc * 256 + unat b) 0 ys"
proof (induction ys arbitrary: a)
  case Nil
  then show ?case by simp
next
  case (Cons y ys)
  have "foldl (\<lambda>acc b. acc * 256 + unat b) a (y # ys)
          = foldl (\<lambda>acc b. acc * 256 + unat b) (a * 256 + unat y) ys" by simp
  also have "\<dots> = (a * 256 + unat y) * 256 ^ length ys
                      + foldl (\<lambda>acc b. acc * 256 + unat b) 0 ys"
    by (rule Cons.IH)
  also have "foldl (\<lambda>acc b. acc * 256 + unat b) (0 * 256 + unat y) ys
               = (0 * 256 + unat y) * 256 ^ length ys + foldl (\<lambda>acc b. acc * 256 + unat b) 0 ys"
    by (rule Cons.IH)
  then have "foldl (\<lambda>acc b. acc * 256 + unat b) 0 (y # ys)
               = unat y * 256 ^ length ys + foldl (\<lambda>acc b. acc * 256 + unat b) 0 ys"
    by simp
  ultimately show ?case by (simp add: algebra_simps)
qed

lemma digest_value_append:
  "digest_value (xs @ ys) = digest_value xs * 256 ^ length ys + digest_value ys"
  unfolding digest_value_def foldl_be_append by (rule foldl_be_init)

lemma digest_value_less: "digest_value bs < 256 ^ length bs"
proof (induction bs rule: rev_induct)
  case Nil
  then show ?case by (simp add: digest_value_def)
next
  case (snoc b bs)
  have "unat b < 2 ^ LENGTH(8)" by (rule unsigned_less)
  then have "unat b < 256" by simp
  moreover have "digest_value (bs @ [b]) = digest_value bs * 256 + unat b"
    by (simp add: digest_value_def)
  moreover from snoc.IH have "digest_value bs + 1 \<le> 256 ^ length bs" by simp
  then have "(digest_value bs + 1) * 256 \<le> 256 ^ length bs * 256" by (rule mult_le_mono1)
  ultimately show ?case by simp
qed

lemma readUIntBE_first48:
  assumes "6 \<le> length bs"
  shows "readUIntBE bs 0 6 = Inr (first48Bits bs)" and "first48Bits bs < 2 ^ 48"
proof -
  let ?hd = "take 6 bs" and ?tl = "drop 6 bs"
  have len: "length ?tl = length bs - 6" "length ?hd = 6" using assms by simp_all
  have "digest_value bs = digest_value (?hd @ ?tl)" by simp
  also have "\<dots> = digest_value ?hd * 256 ^ length ?tl + digest_value ?tl"
    by (rule digest_value_append)
  finally have v: "digest_value bs = digest_value ?hd * 256 ^ (length bs - 6) + digest_value ?tl"
    by (simp only: len)
  have p: "(2::nat) ^ (8 * (length bs - 6)) = 256 ^ (length bs - 6)"
    by (simp add: power_mult)
  have "digest_value ?tl < 256 ^ (length bs - 6)"
    using digest_value_less [of ?tl] by (simp only: len)
  then have f: "first48Bits bs = digest_value ?hd"
    unfolding first48Bits_def p v by simp
  show "readUIntBE bs 0 6 = Inr (first48Bits bs)"
    using assms by (simp add: readUIntBE_def f digest_value_def)
  have "digest_value ?hd < 256 ^ 6" using digest_value_less [of ?hd] by (simp only: len)
  then show "first48Bits bs < 2 ^ 48" by (simp add: f)
qed

lemma fl_hundredth: "fl (1 / 100) = 5764607523034235 / 2 ^ 59"
  by code_simp

lemma raw_threshold:
  assumes "h < 2 ^ 48"
  shows "real h / 2 ^ 48 < fl (1 / 100) \<longleftrightarrow> real h / 2 ^ 48 < 1 / 100"
proof -
  have "real h / 2 ^ 48 < fl (1 / 100) \<longleftrightarrow> real h * 2048 < 5764607523034235"
    unfolding fl_hundredth by (simp add: field_simps)
  also have "\<dots> \<longleftrightarrow> real (h * 2048) < real 5764607523034235" by simp
  also have "\<dots> \<longleftrightarrow> h * 2048 < 5764607523034235" by (rule of_nat_less_iff)
  also have "\<dots> \<longleftrightarrow> h * 100 < 281474976710656" by arith
  also have "\<dots> \<longleftrightarrow> real (h * 100) < real 281474976710656" by (rule of_nat_less_iff [symmetric])
  also have "\<dots> \<longleftrightarrow> real h / 2 ^ 48 < 1 / 100" by (simp add: field_simps)
  finally show ?thesis .
qed

lemma crashPointOfRaw_capped: "crashPointOfRaw raw \<le> MAX_MULTIPLIER"
  by (simp add: crashPointOfRaw_def Let_def MAX_MULTIPLIER_def)

lemma scenario_A: "crashPointOfRaw (fl (5 / 1000)) = 1"
  by code_simp

lemma growthRate_nonneg: "0 \<le> growthRate"
  unfolding growthRate_def by (rule fl_nonneg) simp

lemma math_floor_mono: "x \<le> y \<Longrightarrow> math_floor x \<le> math_floor y"
  by (simp add: math_floor_def floor_mono)

lemma calculateMultiplier_mono:
  assumes pow: "\<forall>x y. x \<le> y \<longrightarrow> mathPowE L x \<le> mathPowE L y"
    and le: "t1 \<le> t2"
  shows "calculateMultiplier L t1 \<le> calculateMultiplier L t2"
proof -
  have "growthRate * t1 \<le> growthRate * t2"
    using le growthRate_nonneg by (rule mult_left_mono)
  then have "js_mul growthRate t1 \<le> js_mul growthRate t2"
    unfolding js_mul_def by (rule fl_mono)
  with pow have "mathPowE L (js_mul growthRate t1) \<le> mathPowE L (js_mul growthRate t2)"
    by blast
  then have "mathPowE L (js_mul growthRate t1) * 100 \<le> mathPowE L (js_mul growthRate t2) * 100"
    by simp
  then have "js_mul (mathPowE L (js_mul growthRate t1)) 100
               \<le> js_mul (mathPowE L (js_mul growthRate t2)) 100"
    unfolding js_mul_def by (rule fl_mono)
  then have "math_floor (js_mul (mathPowE L (js_mul growthRate t1)) 100)
               \<le> math_floor (js_mul (mathPowE L (js_mul growthRate t2)) 100)"
    by (rule math_floor_mono)
  then have "math_floor (js_mul (mathPowE L (js_mul growthRate t1)) 100) / 100
               \<le> math_floor (js_mul (mathPowE L (js_mul growthRate t2)) 100) / 100"
    by simp
  then show ?thesis
    unfolding calculateMultiplier_def Let_def js_div_def by (rule fl_mono)
qed

lemma fl_one: "fl 1 = 1"
  using fl_of_int [of 1] by simp

lemma fl_hundred: "fl 100 = 100"
  using fl_of_int [of 100] by simp

lemma floor_hundred:
  assumes "1 \<le> m" "m \<le> 1002 / 1000"
  shows "js_div (math_floor (js_mul m 100)) 100 = 1"
proof -
  have "fl 100 \<le> fl (m * 100)" using assms(1) by (intro fl_mono) simp
  then have lo: "100 \<le> js_mul m 100" by (simp add: js_mul_def fl_hundred)
  have "fl (m * 100) \<le> fl (1002 / 10)" using assms(2) by (intro fl_mono) simp
  also have "fl (1002 / 10) \<le> 1003 / 10" by code_simp
  finally have hi: "js_mul m 100 < 101" by (simp add: js_mul_def)
  from lo hi have "\<lfloor>js_mul m 100\<rfloor> = 100" by linarith
  then show ?thesis by (simp add: math_floor_def js_div_def fl_one)
qed

lemma ideal_mult_0: "calculateMultiplier ideal_lib 0 = 1"
proof -
  have "mathPowE ideal_lib (js_mul growthRate 0) = 1"
    by (simp add: ideal_lib_def js_mul_def fl_one)
  then show ?thesis
    unfolding calculateMultiplier_def Let_def by (simp add: floor_hundred)
qed

lemma growth_step: "0 \<le> js_mul growthRate 1 \<and> js_mul growthRate 1 \<le> 1 / 10000"
proof -
  have "js_mul growthRate 1 = fl (fl (6 / 100000))" by (simp add: js_mul_def growthRate_def)
  moreover have "0 \<le> fl (fl (6 / 100000))" by (intro fl_nonneg) simp
  moreover have "fl (fl (6 / 100000)) \<le> 1 / 10000" by code_simp
  ultimately show ?thesis by simp
qed

lemma ideal_mult_1: "calculateMultiplier ideal_lib 1 = 1"
proof -
  define c where "c = js_mul growthRate 1"
  have c: "0 \<le> c" "c \<le> 1 / 10000" using growth_step by (simp_all add: c_def)
  have "exp c \<le> 1 + c + c\<^sup>2" using c by (intro exp_bound) simp_all
  also have "c\<^sup>2 \<le> (1 / 10000)\<^sup>2" using c by (intro power_mono) simp_all
  finally have up: "exp c \<le> 1001 / 1000" using c(2) by (simp add: power2_eq_square)
  have lo: "1 \<le> exp c" using c(1) by simp
  have "fl 1 \<le> fl (exp c)" using lo by (rule fl_mono)
  then have m1: "1 \<le> fl (exp c)" by (simp add: fl_one)
  have "fl (exp c) \<le> fl (1001 / 1000)" using up by (rule fl_mono)
  also have "fl (1001 / 1000) \<le> 1002 / 1000" by code_simp
  finally have m2: "fl (exp c) \<le> 1002 / 1000" .
  have "mathPowE ideal_lib (js_mul growthRate 1) = fl (exp c)"
    by (simp add: ideal_lib_def c_def)
  then show ?thesis
    unfolding calculateMultiplier_def Let_def using floor_hundred [OF m1 m2] by simp
qed

lemma ideal_pow_mono: "\<forall>x y. x \<le> y \<longrightarrow> mathPowE ideal_lib x \<le> mathPowE ideal_lib y"
  by (simp add: ideal_lib_def fl_mono)

end
